theory Spec2Isabelle
  imports Complex_Main "HOL-Library.Sublist"
begin

section \<open>Machine integers, times and formatting\<close>

text \<open>
  Go's \<^verbatim>\<open>int64\<close> is modelled as \<open>int\<close> with the two's-complement wrap-around
  written out: every \<^verbatim>\<open>+\<close>, \<^verbatim>\<open>-\<close> and \<^verbatim>\<open>*\<close> of the source on \<^verbatim>\<open>int64\<close> (and on
  \<^verbatim>\<open>time.Duration\<close>, which is an \<^verbatim>\<open>int64\<close> of nanoseconds) is followed by \<open>wrap64\<close>.
\<close>

definition minInt64 :: int where
  "minInt64 = - (2 ^ 63)"

definition maxInt64 :: int where
  "maxInt64 = 2 ^ 63 - 1"

definition in_int64 :: "int \<Rightarrow> bool" where
  "in_int64 x = (minInt64 \<le> x \<and> x \<le> maxInt64)"

definition wrap64 :: "int \<Rightarrow> int" where
  "wrap64 x = (x + 2 ^ 63) mod 2 ^ 64 - 2 ^ 63"

text \<open>
  A \<^verbatim>\<open>time.Time\<close> is modelled as the number of nanoseconds since Go's zero time, a
  \<^verbatim>\<open>time.Duration\<close> as a number of nanoseconds. \<^verbatim>\<open>Time.Sub\<close> saturates at the
  smallest and largest \<^verbatim>\<open>Duration\<close>.
\<close>

type_synonym time = int
type_synonym duration = int

definition Second :: duration where
  "Second = 1000000000"

definition time_Sub :: "time \<Rightarrow> time \<Rightarrow> duration" where
  "time_Sub t u = max minInt64 (min maxInt64 (t - u))"

text \<open>\<^verbatim>\<open>%d\<close> of \<^verbatim>\<open>fmt\<close>: the decimal digits of an integer, with a minus sign.\<close>

definition digit_char :: "nat \<Rightarrow> char" where
  "digit_char d = ''0123456789'' ! d"

fun digits :: "nat \<Rightarrow> string" where
  "digits n = (if n < 10 then [digit_char n] else digits (n div 10) @ [digit_char (n mod 10)])"

declare digits.simps [simp del]

definition itoa :: "int \<Rightarrow> string" where
  "itoa i = (if i < 0 then CHR ''-'' # digits (nat (- i)) else digits (nat i))"

text \<open>\<^verbatim>\<open>%2d\<close>: the same, padded with spaces on the left to two characters.\<close>

definition fmt_2d :: "int \<Rightarrow> string" where
  "fmt_2d i = replicate (2 - length (itoa i)) CHR '' '' @ itoa i"

section \<open>Errors and panics\<close>

text \<open>
  Go compares errors by identity. The package-level sentinels \<^verbatim>\<open>io.EOF\<close>,
  \<^verbatim>\<open>io.ErrShortWrite\<close> and \<^verbatim>\<open>ErrMissingFilename\<close> are constructors of their own;
  an error built by \<^verbatim>\<open>errors.New\<close> or \<^verbatim>\<open>fmt.Errorf\<close> is \<open>ErrorString\<close> of its message;
  \<open>RuntimeError\<close> is a \<^verbatim>\<open>runtime.Error\<close> (nil dereference, division by zero, slice
  bounds, closing a closed channel); \<open>SysError\<close> is an error of the operating system
  or the network, opaque to the program.
\<close>

datatype go_error =
    EOF
  | ErrShortWrite
  | ErrMissingFilename
  | ErrorString string
  | RuntimeError string
  | SysError string

text \<open>The value a \<^verbatim>\<open>panic\<close> carries: a string, an error, or anything else.\<close>

datatype panic_value =
    PanicString string
  | PanicError go_error
  | PanicOther

definition nil_dereference :: panic_value where
  "nil_dereference = PanicError (RuntimeError ''invalid memory address or nil pointer dereference'')"

definition divide_by_zero :: panic_value where
  "divide_by_zero = PanicError (RuntimeError ''integer divide by zero'')"

definition slice_out_of_range :: panic_value where
  "slice_out_of_range = PanicError (RuntimeError ''slice bounds out of range'')"

definition close_of_closed_channel :: panic_value where
  "close_of_closed_channel = PanicError (RuntimeError ''close of closed channel'')"

section \<open>ratelimiter.go\<close>

record rateLimiter =
  lastReadBytes :: int
  lastCheckTime :: time
  limit :: int

text \<open>
  The three quantities \<^verbatim>\<open>wait\<close> computes. \<open>now\<close> is the reading of \<^verbatim>\<open>time.Now()\<close>
  on entry.
\<close>

definition elapsedTime :: "time \<Rightarrow> rateLimiter \<Rightarrow> duration" where
  "elapsedTime now rl = time_Sub now (lastCheckTime rl)"

definition bytesReadSinceLastCheck :: "int \<Rightarrow> rateLimiter \<Rightarrow> int" where
  "bytesReadSinceLastCheck currentReadBytes rl = wrap64 (currentReadBytes - lastReadBytes rl)"

definition sleepDuration :: "time \<Rightarrow> rateLimiter \<Rightarrow> duration" where
  "sleepDuration now rl = wrap64 (Second - elapsedTime now rl)"

text \<open>
  \<^verbatim>\<open>wait\<close> reads the clock on entry (\<open>now\<close>) and, only in the branch that sleeps,
  once more after the sleep (\<open>later\<close>). It returns the limiter as updated and the
  duration handed to \<^verbatim>\<open>time.Sleep\<close>, \<open>None\<close> when \<^verbatim>\<open>time.Sleep\<close> is not called.
\<close>

definition wait :: "time \<Rightarrow> time \<Rightarrow> rateLimiter \<Rightarrow> int \<Rightarrow> rateLimiter \<times> duration option" where
  "wait now later rl currentReadBytes =
     (if elapsedTime now rl \<le> Second then
        (if bytesReadSinceLastCheck currentReadBytes rl \<ge> limit rl then
           (rl\<lparr>lastReadBytes := currentReadBytes, lastCheckTime := later\<rparr>,
            Some (sleepDuration now rl))
         else (rl, None))
      else (rl\<lparr>lastReadBytes := currentReadBytes, lastCheckTime := now\<rparr>, None))"

section \<open>util.go\<close>

text \<open>Go's \<^verbatim>\<open>/\<close> and \<^verbatim>\<open>%\<close> on integers truncate towards zero.\<close>

definition go_quot :: "int \<Rightarrow> int \<Rightarrow> int" where
  "go_quot a b = sgn a * sgn b * (\<bar>a\<bar> div \<bar>b\<bar>)"

definition go_rem :: "int \<Rightarrow> int \<Rightarrow> int" where
  "go_rem a b = a - b * go_quot a b"

function durationToString :: "int \<Rightarrow> string" where
  "durationToString seconds =
     (if seconds < 60 then fmt_2d seconds @ ''s''
      else if seconds < 3600 then
        (if go_rem seconds 60 = 0 then fmt_2d (go_quot seconds 60) @ ''m''
         else fmt_2d (go_quot seconds 60) @ ''m'' @ fmt_2d (go_rem seconds 60) @ ''s'')
      else
        (if go_rem seconds 3600 = 0 then fmt_2d (go_quot seconds 3600) @ ''h''
         else fmt_2d (go_quot seconds 3600) @ ''h'' @ durationToString (go_rem seconds 3600)))"
  by pat_completeness auto
termination
proof (relation "measure nat")
  show "wf (measure nat)" by simp
next
  fix seconds :: int
  assume "\<not> seconds < 60" and "\<not> seconds < 3600"
  then have "go_rem seconds 3600 = seconds mod 3600"
    by (simp add: go_rem_def go_quot_def minus_mult_div_eq_mod)
  moreover have "seconds mod 3600 < 3600" by simp
  ultimately show "(go_rem seconds 3600, seconds) \<in> measure nat"
    using \<open>\<not> seconds < 3600\<close> by simp
qed

declare durationToString.simps [simp del]

text \<open>\<^verbatim>\<open>strings.Split\<close> at a one-character separator, and \<^verbatim>\<open>strings.Join\<close>.\<close>

fun split_on :: "char \<Rightarrow> string \<Rightarrow> string list" where
  "split_on c [] = [[]]"
| "split_on c (x # xs) =
     (if x = c then [] # split_on c xs
      else (case split_on c xs of [] \<Rightarrow> [[x]] | p # ps \<Rightarrow> (x # p) # ps))"

fun join :: "string \<Rightarrow> string list \<Rightarrow> string" where
  "join sep [] = []"
| "join sep [p] = p"
| "join sep (p # q # ps) = p @ sep @ join sep (q # ps)"

text \<open>
  \<^verbatim>\<open>path.Clean\<close> of the Go library, from its documentation: the path is processed
  element by element; empty elements and \<^verbatim>\<open>.\<close> are dropped; \<^verbatim>\<open>..\<close> removes the
  element before it when that is a real element, is dropped at the root of a rooted
  path, and is kept at the start of a path that is not rooted; the empty result is
  \<^verbatim>\<open>.\<close>. \<open>out\<close> holds the elements kept so far, the last one first.
\<close>

fun clean_elems :: "bool \<Rightarrow> string list \<Rightarrow> string list \<Rightarrow> string list" where
  "clean_elems rooted out [] = rev out"
| "clean_elems rooted out (e # es) =
     (if e = [] \<or> e = ''.'' then clean_elems rooted out es
      else if e = ''..'' then
        (case out of
           [] \<Rightarrow> if rooted then clean_elems rooted [] es else clean_elems rooted [''..''] es
         | p # ps \<Rightarrow>
             if p \<noteq> ''..'' then clean_elems rooted ps es
             else if rooted then clean_elems rooted out es
             else clean_elems rooted (''..'' # out) es)
      else clean_elems rooted (e # out) es)"

definition path_Clean :: "string \<Rightarrow> string" where
  "path_Clean p =
     (if p = [] then ''.''
      else
        (let rooted = (hd p = CHR ''/'');
             s = (if rooted then ''/'' else []) @ join ''/'' (clean_elems rooted [] (split_on CHR ''/'' p))
         in if s = [] then ''.'' else s))"

text \<open>
  \<^verbatim>\<open>filepath.Base\<close> where the separator is \<^verbatim>\<open>/\<close> and there are no volume names:
  trailing separators are stripped, the part after the last separator is kept, and a
  path of separators only gives \<^verbatim>\<open>/\<close>.
\<close>

definition filepath_Base :: "string \<Rightarrow> string" where
  "filepath_Base p =
     (if p = [] then ''.''
      else
        (let stripped = rev (dropWhile (\<lambda>c. c = CHR ''/'') (rev p));
             element = rev (takeWhile (\<lambda>c. c \<noteq> CHR ''/'') (rev stripped))
         in if element = [] then ''/'' else element))"

text \<open>
  HTTP messages. A header is a list of keys with their first value; \<^verbatim>\<open>Get\<close> gives
  the empty string for a key that is absent, \<^verbatim>\<open>Set\<close> replaces the value of a key.
  Keys are taken in their canonical form. The body of a response is the script of
  what its successive \<^verbatim>\<open>Read\<close> calls return: the bytes put into the buffer with the
  error returned beside them, or a panic. \<open>URLPath\<close> is \<^verbatim>\<open>response.Request.URL.Path\<close>.
\<close>

type_synonym header = "(string \<times> string) list"

definition header_Get :: "header \<Rightarrow> string \<Rightarrow> string" where
  "header_Get h k = (case map_of h k of None \<Rightarrow> [] | Some v \<Rightarrow> v)"

fun header_Set :: "string \<Rightarrow> string \<Rightarrow> header \<Rightarrow> header" where
  "header_Set k v [] = [(k, v)]"
| "header_Set k v ((k', v') # h) =
     (if k' = k then (k, v) # h else (k', v') # header_Set k v h)"

type_synonym byte = char

datatype read_result =
    ReadReturns "byte list" "go_error option"
  | ReadPanics panic_value

datatype write_result =
    WriteReturns int "go_error option"
  | WritePanics panic_value

record request =
  reqURL :: string
  reqHeader :: header

record response =
  StatusCode :: int
  ContentLength :: int
  Header :: header
  URLPath :: string
  Body :: "read_result list"

record fileInfo =
  IsDir :: bool
  Size :: int

text \<open>
  What the program gets from outside, as parameters:
  \<^item> \<open>parseInt s\<close>: \<^verbatim>\<open>strconv.ParseInt(s, 0, 0)\<close>, \<open>None\<close> for an error;
  \<^item> \<open>parseMediaType v\<close>: the parameters \<^verbatim>\<open>mime.ParseMediaType(v)\<close> returns, \<open>None\<close>
    for an error;
  \<^item> \<open>newRequest_ok url\<close>: whether \<^verbatim>\<open>http.NewRequest("GET", url, nil)\<close> returns a
    request (it returns nil with an error for a URL it cannot parse);
  \<^item> \<open>clientDo k req\<close>: the response and the error of the \<open>k\<close>-th call of
    \<^verbatim>\<open>client.Do\<close> (counted from 0), each of them possibly nil;
  \<^item> \<open>osStat\<close>, \<open>osOpenFile\<close>, \<open>osCreate\<close>: the file system's answers, \<open>None\<close> of
    the last two meaning that the file was opened;
  \<^item> \<open>fileWrite k bs\<close>: what the \<open>k\<close>-th \<^verbatim>\<open>Write\<close> to the destination returns;
  \<^item> \<open>clock k\<close>: the reading of the \<open>k\<close>-th call of \<^verbatim>\<open>time.Now()\<close>.
\<close>

record world =
  parseInt :: "string \<Rightarrow> int option"
  parseMediaType :: "string \<Rightarrow> (string \<rightharpoonup> string) option"
  newRequest_ok :: "string \<Rightarrow> bool"
  clientDo :: "nat \<Rightarrow> request \<Rightarrow> response option \<times> go_error option"
  osStat :: "string \<Rightarrow> go_error + fileInfo"
  osOpenFile :: "string \<Rightarrow> go_error option"
  osCreate :: "string \<Rightarrow> go_error option"
  fileWrite :: "nat \<Rightarrow> byte list \<Rightarrow> write_result"
  clock :: "nat \<Rightarrow> time"

text \<open>
  The name \<^verbatim>\<open>extractFilename\<close> starts from: the \<^verbatim>\<open>filename\<close> parameter of a
  \<^verbatim>\<open>Content-Disposition\<close> header that parses (the empty string when the parameter
  is absent), the path of the URL otherwise.
\<close>

definition derivedName :: "world \<Rightarrow> response \<Rightarrow> string" where
  "derivedName w response =
     (let contentDisposition = header_Get (Header response) ''Content-Disposition'' in
      if contentDisposition \<noteq> [] then
        (case parseMediaType w contentDisposition of
           Some params \<Rightarrow> (case params ''filename'' of None \<Rightarrow> [] | Some f \<Rightarrow> f)
         | None \<Rightarrow> URLPath response)
      else URLPath response)"

text \<open>\<^verbatim>\<open>strings.HasSuffix\<close> and \<^verbatim>\<open>strings.Contains\<close>.\<close>

definition strings_HasSuffix :: "string \<Rightarrow> string \<Rightarrow> bool" where
  "strings_HasSuffix s suf = suffix suf s"

fun strings_Contains :: "string \<Rightarrow> string \<Rightarrow> bool" where
  "strings_Contains [] sub = (sub = [])"
| "strings_Contains (c # s) sub = (prefix sub (c # s) \<or> strings_Contains s sub)"

definition extractFilename :: "world \<Rightarrow> response \<Rightarrow> go_error + string" where
  "extractFilename w response =
     (let filename = derivedName w response in
      if filename = [] \<or> strings_HasSuffix filename ''/'' \<or> strings_Contains filename [CHR 0x00]
      then Inl ErrMissingFilename
      else
        (let filename = filepath_Base (path_Clean (''/'' @ filename)) in
         if filename = [] \<or> filename = ''.'' \<or> filename = ''/''
         then Inl ErrMissingFilename
         else Inr filename))"

definition extractRateLimit :: "world \<Rightarrow> string \<Rightarrow> int \<times> string" where
  "extractRateLimit w url =
     (let parts = split_on CHR '':'' url in
      if length parts \<ge> 2 then
        (case parseInt w (hd parts) of
           None \<Rightarrow> (- 1, url)
         | Some n \<Rightarrow> (n, join '':'' (tl parts)))
      else (- 1, url))"

section \<open>main.go: the download task\<close>

text \<open>
  The completion channel is only ever closed, never sent on: its state is open or
  closed. \<^verbatim>\<open>source\<close> is the script of the body being read, \<^verbatim>\<open>destination\<close> the
  name of the file the handle was opened on. \<^verbatim>\<open>bytesPerSecond\<close> is a \<^verbatim>\<open>float64\<close>:
  a finite value, which is a rational number, an infinity, or a NaN (the speed sampler
  stores the quotient of two floats, whose divisor can be 0). The mutex and the 32 KiB
  scratch buffer (of which only the length matters) are not fields of the model.
\<close>

datatype float64 = Finite rat | PosInf | NegInf | NaN

datatype chan = Open | Closed

record downloadTask =
  completionChan :: chan
  source :: "read_result list"
  destination :: "string option"
  bytesPerSecond :: float64
  error :: "go_error option"
  startTime :: time
  endTime :: time
  bytesRead :: int
  totalFileSize :: int
  fileName :: string
  rateLimiter :: rateLimiter
  downloadURL :: string
  isResumable :: bool
  headers :: header

definition bufferSize :: nat where
  "bufferSize = 32 * 1024"

definition getBytesRead :: "downloadTask \<Rightarrow> int" where
  "getBytesRead dt = bytesRead dt"

definition newDownloadTask :: "world \<Rightarrow> string \<Rightarrow> header \<Rightarrow> downloadTask" where
  "newDownloadTask w url hs =
     (case extractRateLimit w url of (n, url') \<Rightarrow>
        \<lparr>completionChan = Open, source = [], destination = None, bytesPerSecond = Finite 0,
         error = None, startTime = 0, endTime = 0, bytesRead = 0, totalFileSize = 0,
         fileName = [],
         rateLimiter = \<lparr>lastReadBytes = 0, lastCheckTime = 0, limit = wrap64 (n * 1000)\<rparr>,
         downloadURL = url', isResumable = False, headers = hs\<rparr>)"

text \<open>
  What a run of \<^verbatim>\<open>start\<close> does that can be seen from outside the task, in the order
  in which it does it: the requests it sends, its calls into the file system, the reads
  of the body, the writes to the destination, its sleeps, the launch of the speed
  sampler, its assignments to the fields \<^verbatim>\<open>error\<close> and \<^verbatim>\<open>bytesRead\<close>, and the closing
  of the completion channel.
\<close>

datatype event =
    EvRequest request
  | EvStat string
  | EvBodyClose
  | EvOpenFile string
  | EvSeekEnd
  | EvCreate string
  | EvSpawnMonitor
  | EvSleep duration
  | EvRead
  | EvWrite "byte list"
  | EvSetError "go_error option"
  | EvSetBytesRead int
  | EvClose

text \<open>
  The state of a run: the task, the events so far, and how many times the clock was
  read and the destination written.
\<close>

record exec =
  task :: downloadTask
  trace :: "event list"
  ticks :: nat
  writes :: nat

text \<open>How a run, or a part of it, ends: it returns, it panics, or it waits for ever.\<close>

datatype outcome = Returned | Panicked panic_value | Blocked

definition emit :: "event \<Rightarrow> exec \<Rightarrow> exec" where
  "emit e s = s\<lparr>trace := trace s @ [e]\<rparr>"

definition upd :: "(downloadTask \<Rightarrow> downloadTask) \<Rightarrow> exec \<Rightarrow> exec" where
  "upd f s = s\<lparr>task := f (task s)\<rparr>"

definition set_error :: "go_error option \<Rightarrow> exec \<Rightarrow> exec" where
  "set_error e s = emit (EvSetError e) (upd (\<lambda>t. t\<lparr>error := e\<rparr>) s)"

definition set_bytesRead :: "int \<Rightarrow> exec \<Rightarrow> exec" where
  "set_bytesRead n s = emit (EvSetBytesRead n) (upd (\<lambda>t. t\<lparr>bytesRead := n\<rparr>) s)"

definition time_Now :: "world \<Rightarrow> exec \<Rightarrow> time" where
  "time_Now w s = clock w (ticks s)"

definition set_startTime :: "world \<Rightarrow> exec \<Rightarrow> exec" where
  "set_startTime w s = (upd (\<lambda>t. t\<lparr>startTime := time_Now w s\<rparr>) s)\<lparr>ticks := Suc (ticks s)\<rparr>"

definition set_endTime :: "world \<Rightarrow> exec \<Rightarrow> exec" where
  "set_endTime w s = (upd (\<lambda>t. t\<lparr>endTime := time_Now w s\<rparr>) s)\<lparr>ticks := Suc (ticks s)\<rparr>"

text \<open>\<^verbatim>\<open>close(dt.completionChan)\<close>: closing a closed channel panics.\<close>

definition close_completionChan :: "exec \<Rightarrow> panic_value + exec" where
  "close_completionChan s =
     (if completionChan (task s) = Closed then Inl close_of_closed_channel
      else Inr (emit EvClose (upd (\<lambda>t. t\<lparr>completionChan := Closed\<rparr>) s)))"

text \<open>
  The three statements every way out of \<^verbatim>\<open>start\<close> ends with:
  \<^verbatim>\<open>close(dt.completionChan); dt.endTime = time.Now(); return\<close>.
\<close>

definition close_and_return :: "world \<Rightarrow> exec \<Rightarrow> outcome \<times> exec" where
  "close_and_return w s =
     (case close_completionChan s of
        Inl p \<Rightarrow> (Panicked p, s)
      | Inr s' \<Rightarrow> (Returned, set_endTime w s'))"

text \<open>
  Lines 275 to 280, and again 296 to 301: a nil response panics where its status is
  read (in the condition when the error is nil, in the message otherwise); an error,
  or a status other than 200 and 206, ends the task with the status in the message;
  otherwise the run goes on with the response.
\<close>

definition check_response ::
  "world \<Rightarrow> response option \<times> go_error option \<Rightarrow> exec \<Rightarrow> (outcome \<times> exec) + response" where
  "check_response w res s =
     (case res of
        (None, err) \<Rightarrow> Inl (Panicked nil_dereference, s)
      | (Some response, err) \<Rightarrow>
          if err \<noteq> None \<or> (StatusCode response \<noteq> 200 \<and> StatusCode response \<noteq> 206)
          then Inl (close_and_return w
                 (set_error (Some (ErrorString
                    (''HTTP request failed with status: '' @ itoa (StatusCode response)))) s))
          else Inr response)"

text \<open>The call of the limiter at the head of the loop, lines 339 to 341.\<close>

definition limiter_step :: "world \<Rightarrow> exec \<Rightarrow> exec" where
  "limiter_step w s =
     (if limit (rateLimiter (task s)) > 0 then
        (case wait (clock w (ticks s)) (clock w (Suc (ticks s))) (rateLimiter (task s))
                (bytesRead (task s)) of
           (rl, None) \<Rightarrow> (upd (\<lambda>t. t\<lparr>rateLimiter := rl\<rparr>) s)\<lparr>ticks := Suc (ticks s)\<rparr>
         | (rl, Some d) \<Rightarrow>
             (emit (EvSleep d) (upd (\<lambda>t. t\<lparr>rateLimiter := rl\<rparr>) s))\<lparr>ticks := Suc (Suc (ticks s))\<rparr>)
      else s)"

text \<open>
  The transfer loop, lines 338 to 356, over the script of the body. A script that is
  used up stands for a \<^verbatim>\<open>Read\<close> that never returns. The loop is left by \<^verbatim>\<open>break\<close>
  with the value of the local variable \<^verbatim>\<open>err\<close>, or by a panic. \<^verbatim>\<open>err\<close> is
  assigned by \<^verbatim>\<open>Read\<close> and again by \<^verbatim>\<open>Write\<close>, so that the test at line 353 sees the
  error of the read only when no byte was read. A read of more bytes than the buffer
  holds panics in the slice expression \<^verbatim>\<open>dt.buffer[:bytesRead]\<close>.
\<close>

datatype loop_exit = Break "go_error option" | LoopPanic panic_value | LoopBlocked

fun copy_loop :: "world \<Rightarrow> read_result list \<Rightarrow> exec \<Rightarrow> loop_exit \<times> exec" where
  "copy_loop w [] s = (LoopBlocked, emit EvRead (limiter_step w s))"
| "copy_loop w (r # rs) s =
     (let s1 = emit EvRead (limiter_step w s) in
      case r of
        ReadPanics p \<Rightarrow> (LoopPanic p, s1)
      | ReadReturns buf err \<Rightarrow>
          if int (length buf) > 0 then
            (if length buf > bufferSize then (LoopPanic slice_out_of_range, s1)
             else
               (let s2 = (emit (EvWrite buf) s1)\<lparr>writes := Suc (writes s1)\<rparr> in
                case fileWrite w (writes s1) buf of
                  WritePanics p \<Rightarrow> (LoopPanic p, s2)
                | WriteReturns bytesWritten err' \<Rightarrow>
                    if err' \<noteq> None \<or> int (length buf) \<noteq> bytesWritten
                    then (Break err', set_error (Some ErrShortWrite) s2)
                    else
                      (let s3 = set_bytesRead
                                  (wrap64 (bytesRead (task s2) + int (length buf))) s2 in
                       if err' \<noteq> None then (Break err', s3) else copy_loop w rs s3)))
          else if err \<noteq> None then (Break err, s1)
          else copy_loop w rs s1)"

text \<open>
  Lines 325 to 361: the fields are set from the response (the total size by the test
  of line 328), the speed sampler is launched, the loop runs, and its \<^verbatim>\<open>err\<close> is
  stored in \<^verbatim>\<open>dt.error\<close> before the channel is closed. \<open>fi\<close> is \<^verbatim>\<open>fileInfo\<close>,
  \<open>None\<close> for nil.
\<close>

definition total_size :: "response \<Rightarrow> bool \<Rightarrow> fileInfo option \<Rightarrow> int" where
  "total_size response resumable fi =
     (case fi of
        Some info \<Rightarrow>
          if ContentLength response > 0 \<and> resumable
          then wrap64 (ContentLength response + Size info)
          else ContentLength response
      | None \<Rightarrow> ContentLength response)"

definition transfer ::
  "world \<Rightarrow> string \<Rightarrow> response \<Rightarrow> fileInfo option \<Rightarrow> exec \<Rightarrow> outcome \<times> exec" where
  "transfer w name response fi s =
     (let s1 = upd (\<lambda>t. t\<lparr>destination := Some name, source := Body response,
                          fileName := name,
                          totalFileSize := total_size response (isResumable (task s)) fi\<rparr>) s;
          s2 = set_startTime w (emit EvSpawnMonitor s1)
      in case copy_loop w (Body response) s2 of
           (Break err, s3) \<Rightarrow> close_and_return w (set_error err s3)
         | (LoopPanic p, s3) \<Rightarrow> (Panicked p, s3)
         | (LoopBlocked, s3) \<Rightarrow> (Blocked, s3))"

text \<open>Lines 316 to 323, for a \<^verbatim>\<open>destinationFile\<close> that is still nil.\<close>

definition create_and_transfer ::
  "world \<Rightarrow> string \<Rightarrow> response \<Rightarrow> fileInfo option \<Rightarrow> exec \<Rightarrow> outcome \<times> exec" where
  "create_and_transfer w name response fi s =
     (let s1 = emit (EvCreate name) s in
      case osCreate w name of
        Some err \<Rightarrow> close_and_return w s1
      | None \<Rightarrow> transfer w name response fi s1)"

text \<open>Lines 287 to 312, for a name that \<^verbatim>\<open>os.Stat\<close> found and that is no directory.\<close>

definition range_header :: "int \<Rightarrow> string" where
  "range_header n = ''bytes='' @ itoa n @ ''-''"

definition confirms_ranges :: "response \<Rightarrow> bool" where
  "confirms_ranges response =
     (header_Get (Header response) ''Accept-Ranges'' = ''bytes''
      \<or> header_Get (Header response) ''Content-Range'' \<noteq> [])"

definition with_range :: "request \<Rightarrow> int \<Rightarrow> request" where
  "with_range req n = req\<lparr>reqHeader := header_Set ''Range'' (range_header n) (reqHeader req)\<rparr>"

definition resume ::
  "world \<Rightarrow> request \<Rightarrow> string \<Rightarrow> response \<Rightarrow> fileInfo \<Rightarrow> exec \<Rightarrow> outcome \<times> exec" where
  "resume w req name response info s =
     (let s1 = emit EvBodyClose s in
      if Size info = ContentLength response
      then close_and_return w (set_error (Some (ErrorString ''file already downloaded'')) s1)
      else
        (let req' = with_range req (Size info);
             s2 = emit (EvRequest req') s1
         in case check_response w (clientDo w 1 req') s2 of
              Inl r \<Rightarrow> r
            | Inr response' \<Rightarrow>
                if confirms_ranges response' then
                  (let s3 = emit (EvOpenFile name) s2 in
                   case osOpenFile w name of
                     Some err \<Rightarrow> close_and_return w s3
                   | None \<Rightarrow>
                       transfer w name response' (Some info)
                         (upd (\<lambda>t. t\<lparr>isResumable := True\<rparr>)
                            (set_bytesRead (Size info) (emit EvSeekEnd s3))))
                else create_and_transfer w name response' (Some info) s2))"

text \<open>
  The request of lines 262 to 267: the URL of the task with the headers of the task,
  set in the order in which the map is ranged over.
\<close>

definition initial_request :: "downloadTask \<Rightarrow> request" where
  "initial_request dt =
     \<lparr>reqURL = downloadURL dt,
      reqHeader = fold (\<lambda>(key, v) h. header_Set key v h) (headers dt) []\<rparr>"

text \<open>
  The body of \<^verbatim>\<open>start\<close>. A nil request (of a URL that \<^verbatim>\<open>http.NewRequest\<close> refuses)
  panics where it is first used, before anything is sent. The error of
  \<^verbatim>\<open>extractFilename\<close> is overwritten by that of \<^verbatim>\<open>os.Stat\<close> at the next line, so
  that only the name it returns counts, which is empty beside an error.
\<close>

definition start_fileName :: "world \<Rightarrow> response \<Rightarrow> string" where
  "start_fileName w response =
     (case extractFilename w response of Inl err \<Rightarrow> [] | Inr name \<Rightarrow> name)"

definition start_body :: "world \<Rightarrow> exec \<Rightarrow> outcome \<times> exec" where
  "start_body w s =
     (if \<not> newRequest_ok w (downloadURL (task s)) then (Panicked nil_dereference, s)
      else
        (let req = initial_request (task s);
             s1 = emit (EvRequest req) s
         in case check_response w (clientDo w 0 req) s1 of
              Inl r \<Rightarrow> r
            | Inr response \<Rightarrow>
                (let name = start_fileName w response;
                     s2 = emit (EvStat name) s1
                 in case osStat w name of
                      Inl err \<Rightarrow> create_and_transfer w name response None s2
                    | Inr info \<Rightarrow>
                        if \<not> IsDir info then resume w req name response info s2
                        else create_and_transfer w name response (Some info) s2)))"

text \<open>The type switch of the deferred function, lines 243 to 250.\<close>

fun recovered_error :: "panic_value \<Rightarrow> go_error" where
  "recovered_error (PanicString e) = ErrorString e"
| "recovered_error (PanicError e) = e"
| "recovered_error PanicOther = ErrorString ''unknown panic occurred''"

text \<open>
  \<^verbatim>\<open>start\<close>: the body under the deferred function, which runs its three statements
  when the body panicked. A panic of the deferred function itself leaves the task.
\<close>

definition init_exec :: "downloadTask \<Rightarrow> exec" where
  "init_exec dt = \<lparr>task = dt, trace = [], ticks = 0, writes = 0\<rparr>"

definition start :: "world \<Rightarrow> downloadTask \<Rightarrow> outcome \<times> exec" where
  "start w dt =
     (case start_body w (init_exec dt) of
        (Panicked p, s) \<Rightarrow>
          close_and_return w (set_error (Some (recovered_error p)) s)
      | (Returned, s) \<Rightarrow> (Returned, s)
      | (Blocked, s) \<Rightarrow> (Blocked, s))"

text \<open>
  \<^verbatim>\<open>getETAString\<close>, of a task that is not nil. \<^verbatim>\<open>int64(f)\<close> drops the fraction of a
  finite \<^verbatim>\<open>f\<close> when the result is an \<^verbatim>\<open>int64\<close>. For every other \<^verbatim>\<open>f\<close> (too large,
  an infinity, a NaN) the language leaves the result to the implementation; the model
  gives what the conversion instruction of amd64 gives, the smallest \<^verbatim>\<open>int64\<close>. The
  test \<^verbatim>\<open>== 0\<close> of a float holds of the finite value 0 only. The division of two
  \<^verbatim>\<open>int64\<close> panics for the divisor 0.
\<close>

definition int64_of_float :: "float64 \<Rightarrow> int" where
  "int64_of_float x =
     (case x of
        Finite f \<Rightarrow>
          (let t = (if 0 \<le> f then \<lfloor>f\<rfloor> else \<lceil>f\<rceil>) in
           if in_int64 t then t else minInt64)
      | _ \<Rightarrow> minInt64)"

definition int64_div :: "int \<Rightarrow> int \<Rightarrow> panic_value + int" where
  "int64_div a b = (if b = 0 then Inl divide_by_zero else Inr (wrap64 (go_quot a b)))"

definition getETAString :: "downloadTask \<Rightarrow> panic_value + string" where
  "getETAString dt =
     (if totalFileSize dt = 0 \<or> bytesPerSecond dt = Finite 0 then Inr ''N/A''
      else
        (case int64_div (wrap64 (totalFileSize dt - getBytesRead dt))
                (int64_of_float (bytesPerSecond dt)) of
           Inl p \<Rightarrow> Inl p
         | Inr remainingTime \<Rightarrow> Inr (durationToString remainingTime)))"

section \<open>Predicates of the results\<close>

text \<open>
  A path element that names an entry of the directory it is resolved in: not empty,
  neither \<^verbatim>\<open>.\<close> nor \<^verbatim>\<open>..\<close>, and without a separator.
\<close>

definition good_elem :: "string \<Rightarrow> bool" where
  "good_elem e = (e \<noteq> [] \<and> e \<noteq> ''.'' \<and> e \<noteq> ''..'' \<and> CHR ''/'' \<notin> set e)"

text \<open>
  Predicates of a trace and of the state of a run: how many times the channel was
  closed; a run that has not closed the channel; a run whose last event is the one
  closing of the channel; the values assigned to \<^verbatim>\<open>bytesRead\<close>, in order; the bytes
  a body holds; a body that ends, that is, one of whose reads returns no byte and an
  error (the end of the stream is the error \<open>EOF\<close>), or panics.
\<close>

fun is_close :: "event \<Rightarrow> bool" where
  "is_close EvClose = True"
| "is_close e = False"

definition closes :: "event list \<Rightarrow> nat" where
  "closes tr = length (filter is_close tr)"

definition quiet :: "exec \<Rightarrow> bool" where
  "quiet s = (closes (trace s) = 0 \<and> completionChan (task s) = Open)"

definition closed_last :: "exec \<Rightarrow> bool" where
  "closed_last s =
     (trace s \<noteq> [] \<and> last (trace s) = EvClose \<and> closes (butlast (trace s)) = 0
      \<and> completionChan (task s) = Closed)"

fun well_ended :: "outcome \<times> exec \<Rightarrow> bool" where
  "well_ended (Returned, s) = closed_last s"
| "well_ended (oc, s) = quiet s"

fun ends_read :: "read_result \<Rightarrow> bool" where
  "ends_read (ReadPanics p) = True"
| "ends_read (ReadReturns buf err) = (buf = [] \<and> err \<noteq> None)"

definition body_ends :: "read_result list \<Rightarrow> bool" where
  "body_ends rs = list_ex ends_read rs"

fun bytesRead_values :: "event list \<Rightarrow> int list" where
  "bytesRead_values [] = []"
| "bytesRead_values (EvSetBytesRead v # tr) = v # bytesRead_values tr"
| "bytesRead_values (e # tr) = bytesRead_values tr"

fun body_bytes :: "read_result list \<Rightarrow> int" where
  "body_bytes [] = 0"
| "body_bytes (ReadReturns buf err # rs) = int (length buf) + body_bytes rs"
| "body_bytes (ReadPanics p # rs) = body_bytes rs"

text \<open>
  The writes in a trace. The \<open>k\<close>-th of them (counted from 0) is the \<open>k\<close>-th call of
  \<^verbatim>\<open>Write\<close>, whose result is \<open>fileWrite w k\<close> of the bytes written.
\<close>

fun is_write :: "event \<Rightarrow> bool" where
  "is_write (EvWrite buf) = True"
| "is_write e = False"

definition writes_of :: "event list \<Rightarrow> nat" where
  "writes_of tr = length (filter is_write tr)"

text \<open>
  Every assignment to \<^verbatim>\<open>bytesRead\<close> has its reason in the events before it. With the
  earlier events listed backwards, the latest first, the assignment of \<open>v\<close> is one of
  two:
  \<^item> an increment after a successful write: it comes directly after a write of \<open>buf\<close>,
    that call of \<^verbatim>\<open>Write\<close> returned the length of \<open>buf\<close> and no error, and \<open>v\<close> is
    the value assigned before (0 when there is none) plus the length of \<open>buf\<close>;
  \<^item> the seed: it comes directly after the seek to the end of the file that was
    reopened under \<open>name\<close>, no value was assigned before it, \<^verbatim>\<open>os.Stat\<close> finds
    under \<open>name\<close> a file that is no directory, and \<open>v\<close> is the size of that file.
\<close>

definition seeded_from :: "world \<Rightarrow> int \<Rightarrow> event list \<Rightarrow> bool" where
  "seeded_from w v earlier =
     (case earlier of
        EvOpenFile name # tr \<Rightarrow>
          bytesRead_values (rev tr) = []
          \<and> (case osStat w name of
               Inl err \<Rightarrow> False
             | Inr info \<Rightarrow> \<not> IsDir info \<and> v = Size info)
      | _ \<Rightarrow> False)"

definition reason_before :: "world \<Rightarrow> int \<Rightarrow> event list \<Rightarrow> bool" where
  "reason_before w v earlier =
     (case earlier of
        EvWrite buf # tr \<Rightarrow>
          fileWrite w (writes_of tr) buf = WriteReturns (int (length buf)) None
          \<and> v = last (0 # bytesRead_values (rev tr)) + int (length buf)
      | EvSeekEnd # tr \<Rightarrow> seeded_from w v tr
      | _ \<Rightarrow> False)"

fun steps_back :: "world \<Rightarrow> event list \<Rightarrow> bool" where
  "steps_back w [] = True"
| "steps_back w (e # earlier) =
     ((case e of EvSetBytesRead v \<Rightarrow> reason_before w v earlier | _ \<Rightarrow> True)
      \<and> steps_back w earlier)"

definition assignments_justified :: "world \<Rightarrow> event list \<Rightarrow> bool" where
  "assignments_justified w tr = steps_back w (rev tr)"

text \<open>
  The state of the counter in a run: the values assigned never decrease from 0, the
  field holds the last of them, each assignment has its reason, and the calls of
  \<^verbatim>\<open>Write\<close> are counted as the trace shows them.
\<close>

definition counter_inv :: "world \<Rightarrow> exec \<Rightarrow> bool" where
  "counter_inv w s =
     (sorted (0 # bytesRead_values (trace s))
      \<and> bytesRead (task s) = last (0 # bytesRead_values (trace s))
      \<and> assignments_justified w (trace s)
      \<and> writes s = writes_of (trace s))"

text \<open>
  The assignments to the fields \<^verbatim>\<open>error\<close> and \<^verbatim>\<open>bytesRead\<close>; what a trace holds
  after its first closing of the channel; a state that goes on from another one: its
  trace extends the other, and \<^verbatim>\<open>isResumable\<close> and \<^verbatim>\<open>totalFileSize\<close> are as they were.
\<close>

fun is_field_write :: "event \<Rightarrow> bool" where
  "is_field_write (EvSetError e) = True"
| "is_field_write (EvSetBytesRead n) = True"
| "is_field_write e = False"

definition after_close :: "event list \<Rightarrow> event list" where
  "after_close tr = drop 1 (dropWhile (\<lambda>e. \<not> is_close e) tr)"

definition continues :: "exec \<Rightarrow> exec \<Rightarrow> bool" where
  "continues s s' =
     (prefix (trace s) (trace s')
      \<and> isResumable (task s') = isResumable (task s)
      \<and> totalFileSize (task s') = totalFileSize (task s))"

text \<open>A trace without the sleeps of the limiter.\<close>

fun is_sleep :: "event \<Rightarrow> bool" where
  "is_sleep (EvSleep d) = True"
| "is_sleep e = False"

definition without_sleeps :: "event list \<Rightarrow> event list" where
  "without_sleeps tr = filter (\<lambda>e. \<not> is_sleep e) tr"

section \<open>Scenarios\<close>

text \<open>Concrete limiters, responses, worlds and tasks on which the results below are run.\<close>

definition limiter_1s :: rateLimiter where
  "limiter_1s = \<lparr>lastReadBytes = 0, lastCheckTime = 1000000000, limit = 50000\<rparr>"

definition resp_hello :: response where
  "resp_hello =
     \<lparr>StatusCode = 200, ContentLength = 5, Header = [], URLPath = ''/pub/hello.txt'',
      Body = [ReadReturns ''hello'' None, ReadReturns [] (Some EOF)]\<rparr>"

text \<open>
  A world in which every request is answered by \<open>resp_hello\<close>, no file exists yet,
  every file can be opened and every write is complete.
\<close>

definition quiet_world :: world where
  "quiet_world =
     \<lparr>parseInt = (\<lambda>s. None), parseMediaType = (\<lambda>v. None), newRequest_ok = (\<lambda>url. True),
      clientDo = (\<lambda>k req. (Some resp_hello, None)),
      osStat = (\<lambda>name. Inl (SysError ''no such file or directory'')),
      osOpenFile = (\<lambda>name. None), osCreate = (\<lambda>name. None),
      fileWrite = (\<lambda>k buf. WriteReturns (int (length buf)) None),
      clock = (\<lambda>k. int k * Second)\<rparr>"

definition resp_traversal :: response where
  "resp_traversal = resp_hello\<lparr>URLPath := ''/files/../report.txt''\<rparr>"

definition resp_directory :: response where
  "resp_directory = resp_hello\<lparr>URLPath := ''/files/''\<rparr>"

definition hello_task :: downloadTask where
  "hello_task = newDownloadTask quiet_world ''http://example.org/pub/hello.txt'' []"

definition disk_full_world :: world where
  "disk_full_world =
     quiet_world\<lparr>fileWrite := (\<lambda>k buf. WriteReturns 0 (Some (SysError ''no space left on device'')))\<rparr>"

definition read_only_world :: world where
  "read_only_world = quiet_world\<lparr>osCreate := (\<lambda>name. Some (SysError ''permission denied''))\<rparr>"

definition slow_task :: downloadTask where
  "slow_task = hello_task\<lparr>totalFileSize := 1000, bytesRead := 10, bytesPerSecond := Finite (1 / 2)\<rparr>"

definition unknown_total_task :: downloadTask where
  "unknown_total_task =
     hello_task\<lparr>totalFileSize := - 1, bytesRead := 10, bytesPerSecond := Finite 100\<rparr>"

definition partial_file :: fileInfo where
  "partial_file = \<lparr>IsDir = False, Size = 100\<rparr>"

definition resp_full :: response where
  "resp_full = resp_hello\<lparr>ContentLength := 1000\<rparr>"

definition resp_rest :: response where
  "resp_rest =
     \<lparr>StatusCode = 206, ContentLength = 900, Header = [(''Content-Range'', ''bytes 100-999/1000'')],
      URLPath = ''/pub/hello.txt'',
      Body = [ReadReturns ''0123456789'' None, ReadReturns [] (Some EOF)]\<rparr>"

definition resp_rest_unknown_length :: response where
  "resp_rest_unknown_length = resp_rest\<lparr>ContentLength := - 1\<rparr>"

definition resp_unsatisfiable :: response where
  "resp_unsatisfiable =
     resp_rest\<lparr>StatusCode := 416, ContentLength := 0, Header := [(''Content-Range'', ''bytes */1000'')],
       Body := [ReadReturns [] (Some EOF)]\<rparr>"

definition partial_world :: "response \<Rightarrow> world" where
  "partial_world second =
     quiet_world\<lparr>clientDo := (\<lambda>k req. if k = 0 then (Some resp_full, None) else (Some second, None)),
       osStat := (\<lambda>name. Inr partial_file)\<rparr>"

definition locked_world :: world where
  "locked_world =
     (partial_world resp_rest)\<lparr>osOpenFile := (\<lambda>name. Some (SysError ''permission denied''))\<rparr>"

definition complete_world :: world where
  "complete_world = quiet_world\<lparr>osStat := (\<lambda>name. Inr \<lparr>IsDir = False, Size = 5\<rparr>)\<rparr>"

definition not_found_world :: world where
  "not_found_world =
     quiet_world\<lparr>clientDo := (\<lambda>k req. (Some (resp_hello\<lparr>StatusCode := 404\<rparr>), None))\<rparr>"

definition resp_reset :: response where
  "resp_reset = resp_hello\<lparr>Body := [ReadReturns [] (Some (SysError ''connection reset by peer''))]\<rparr>"

definition reset_world :: world where
  "reset_world = quiet_world\<lparr>clientDo := (\<lambda>k req. (Some resp_reset, None))\<rparr>"

definition resp_panics :: response where
  "resp_panics =
     resp_hello\<lparr>Body := [ReadReturns ''he'' None, ReadPanics (PanicString ''unexpected fault'')]\<rparr>"

definition panic_world :: world where
  "panic_world = quiet_world\<lparr>clientDo := (\<lambda>k req. (Some resp_panics, None))\<rparr>"

text \<open>
  A world in which the connection is refused, so that \<^verbatim>\<open>client.Do\<close> returns no
  response beside its error, and one in which the first read of the body panics with a
  value that is neither a string nor an error.
\<close>

definition refused_world :: world where
  "refused_world =
     quiet_world\<lparr>clientDo := (\<lambda>k req. (None, Some (SysError ''connection refused'')))\<rparr>"

definition resp_panics_other :: response where
  "resp_panics_other = resp_hello\<lparr>Body := [ReadPanics PanicOther]\<rparr>"

definition odd_panic_world :: world where
  "odd_panic_world = quiet_world\<lparr>clientDo := (\<lambda>k req. (Some resp_panics_other, None))\<rparr>"

section \<open>Properties\<close>

subsection \<open>Integers\<close>

lemma wrap64_id: "in_int64 x \<Longrightarrow> wrap64 x = x"
  by (simp add: in_int64_def minInt64_def maxInt64_def wrap64_def)

lemma wrap64_in_int64: "in_int64 (wrap64 x)"
proof -
  have "0 \<le> (x + 2 ^ 63) mod (2 ^ 64 :: int)" and "(x + 2 ^ 63) mod (2 ^ 64 :: int) < 2 ^ 64"
    by simp_all
  then show ?thesis
    by (simp add: in_int64_def minInt64_def maxInt64_def wrap64_def)
qed

subsection \<open>The rate limiter\<close>

text \<open>
  Claim C2. A call of \<^verbatim>\<open>wait\<close> with the count \<open>cur\<close>, entered at the clock reading
  \<open>now\<close>, does one of three things. When the time elapsed since the checkpoint is at
  most one second and the bytes read since the checkpoint have reached the ceiling, it
  sleeps for one second less the elapsed time and then sets the checkpoint to the
  count and to the clock as read after the sleep (\<open>later\<close>). When more than one
  second has elapsed, it sets the checkpoint to the count and to \<open>now\<close> and does not
  sleep. Otherwise it neither sleeps nor changes the checkpoint. The elapsed time, the
  bytes read and the sleep are the \<^verbatim>\<open>int64\<close> values the code computes; they are the
  exact differences whenever those fit an \<^verbatim>\<open>int64\<close>, and the sleep is exactly the
  rest of the second whenever the clock has not run backwards past the checkpoint.
\<close>

theorem wait_cases:
  "(elapsedTime now rl \<le> Second \<and> limit rl \<le> bytesReadSinceLastCheck cur rl \<longrightarrow>
      wait now later rl cur =
        (rl\<lparr>lastReadBytes := cur, lastCheckTime := later\<rparr>, Some (sleepDuration now rl)))
   \<and> (Second < elapsedTime now rl \<longrightarrow>
      wait now later rl cur = (rl\<lparr>lastReadBytes := cur, lastCheckTime := now\<rparr>, None))
   \<and> (elapsedTime now rl \<le> Second \<and> bytesReadSinceLastCheck cur rl < limit rl \<longrightarrow>
      wait now later rl cur = (rl, None))
   \<and> (in_int64 (now - lastCheckTime rl) \<longrightarrow> elapsedTime now rl = now - lastCheckTime rl)
   \<and> (in_int64 (cur - lastReadBytes rl) \<longrightarrow>
      bytesReadSinceLastCheck cur rl = cur - lastReadBytes rl)
   \<and> (0 \<le> now - lastCheckTime rl \<and> now - lastCheckTime rl \<le> Second \<longrightarrow>
      sleepDuration now rl = Second - (now - lastCheckTime rl))"
proof -
  have a: "in_int64 (now - lastCheckTime rl) \<Longrightarrow> elapsedTime now rl = now - lastCheckTime rl"
    by (simp add: elapsedTime_def time_Sub_def in_int64_def)
  have b: "in_int64 (cur - lastReadBytes rl) \<Longrightarrow>
      bytesReadSinceLastCheck cur rl = cur - lastReadBytes rl"
    by (simp add: bytesReadSinceLastCheck_def wrap64_id)
  have c: "sleepDuration now rl = Second - (now - lastCheckTime rl)"
    if "0 \<le> now - lastCheckTime rl" and "now - lastCheckTime rl \<le> Second"
  proof -
    from that have "in_int64 (now - lastCheckTime rl)"
      by (simp add: in_int64_def minInt64_def maxInt64_def Second_def)
    then have "elapsedTime now rl = now - lastCheckTime rl" by (rule a)
    moreover from that have "in_int64 (Second - (now - lastCheckTime rl))"
      by (simp add: in_int64_def minInt64_def maxInt64_def Second_def)
    ultimately show ?thesis by (simp add: sleepDuration_def wrap64_id)
  qed
  show ?thesis
    using a b c by (simp add: wait_def)
qed

text \<open>
  The three cases on a limiter of 50000 bytes per second whose checkpoint was taken
  at 1 s with the count 0: entered at 1.5 s with 65536 bytes it sleeps 0.5 s; entered
  at 2.5 s it resets at once; entered at 1.5 s with 32768 bytes it does nothing.
\<close>

theorem wait_cases_witness:
  "elapsedTime 1500000000 limiter_1s \<le> Second
   \<and> limit limiter_1s \<le> bytesReadSinceLastCheck 65536 limiter_1s
   \<and> wait 1500000000 2000000000 limiter_1s 65536
       = (\<lparr>lastReadBytes = 65536, lastCheckTime = 2000000000, limit = 50000\<rparr>, Some 500000000)
   \<and> Second < elapsedTime 2500000000 limiter_1s
   \<and> wait 2500000000 2600000000 limiter_1s 65536
       = (\<lparr>lastReadBytes = 65536, lastCheckTime = 2500000000, limit = 50000\<rparr>, None)
   \<and> bytesReadSinceLastCheck 32768 limiter_1s < limit limiter_1s
   \<and> wait 1500000000 2000000000 limiter_1s 32768 = (limiter_1s, None)"
  using wait_cases [of 1500000000 limiter_1s 65536 2000000000]
        wait_cases [of 2500000000 limiter_1s 65536 2600000000]
        wait_cases [of 1500000000 limiter_1s 32768 2000000000]
  by (simp add: limiter_1s_def in_int64_def minInt64_def maxInt64_def Second_def)

subsection \<open>File names\<close>

lemma strings_Contains_char: "strings_Contains s [c] = (c \<in> set s)"
  by (induction s) auto

lemma strings_Contains_sublist: "strings_Contains s sub = sublist sub s"
  by (induction s) (auto simp: sublist_Cons_right)

lemma strings_HasSuffix_char: "strings_HasSuffix s [c] = (s \<noteq> [] \<and> last s = c)"
  unfolding strings_HasSuffix_def
  by (cases s rule: rev_cases) (auto simp: suffix_def)

lemma split_on_nonempty: "split_on c s \<noteq> []"
  by (induction s) (auto split: list.splits)

lemma split_on_no_sep: "p \<in> set (split_on c s) \<Longrightarrow> c \<notin> set p"
  by (induction s arbitrary: p) (auto split: list.splits if_splits)

lemma split_on_chars_Union: "\<Union> (set ` set (split_on c s)) \<subseteq> set s"
proof (induction s)
  case Nil
  then show ?case by simp
next
  case (Cons x xs)
  show ?case
  proof (cases "split_on c xs")
    case Nil
    then show ?thesis by simp
  next
    case (Cons p ps)
    with Cons.IH have "set p \<subseteq> set xs" and "\<Union> (set ` set ps) \<subseteq> set xs" by auto
    with Cons Cons.IH show ?thesis by auto
  qed
qed

lemma split_on_chars: "p \<in> set (split_on c s) \<Longrightarrow> set p \<subseteq> set s"
  using split_on_chars_Union [of c s] by blast

lemma clean_elems_rooted_good:
  "\<forall>e \<in> set out. good_elem e \<Longrightarrow> \<forall>e \<in> set es. CHR ''/'' \<notin> set e \<Longrightarrow>
   \<forall>e \<in> set (clean_elems True out es). good_elem e"
proof (induction es arbitrary: out)
  case Nil
  then show ?case by simp
next
  case (Cons e es)
  have ih: "\<forall>x \<in> set (clean_elems True out' es). good_elem x"
    if "\<forall>x \<in> set out'. good_elem x" for out'
    using Cons.IH [OF that] Cons.prems(2) by simp
  consider "e = [] \<or> e = ''.''" | "e = ''..''" | "e \<noteq> []" "e \<noteq> ''.''" "e \<noteq> ''..''"
    by blast
  then show ?case
  proof cases
    case 1
    with ih [OF Cons.prems(1)] show ?thesis by auto
  next
    case 2
    show ?thesis
    proof (cases out)
      case Nil
      with 2 ih [of "[]"] show ?thesis by simp
    next
      case (Cons p ps)
      with Cons.prems(1) have "\<forall>x \<in> set ps. good_elem x" and "p \<noteq> ''..''"
        by (auto simp: good_elem_def)
      with 2 Cons ih [of ps] show ?thesis by simp
    qed
  next
    case 3
    with Cons.prems have "\<forall>x \<in> set (e # out). good_elem x"
      by (auto simp: good_elem_def)
    with 3 ih [of "e # out"] show ?thesis by simp
  qed
qed

lemma clean_elems_subset:
  "set (clean_elems r out es) \<subseteq> set out \<union> set es"
proof (induction es arbitrary: out)
  case Nil
  then show ?case by simp
next
  case (Cons e es)
  have a: "set (clean_elems r out es) \<subseteq> set out \<union> set es" for out by (rule Cons.IH)
  show ?case
    using a [of out] a [of "[]"] a [of "[''..'']"] a [of "tl out"] a [of "''..'' # out"] a [of "e # out"]
    by (auto split: list.splits)
qed

lemma join_snoc: "es \<noteq> [] \<Longrightarrow> join sep (es @ [l]) = join sep es @ sep @ l"
  by (induction sep es rule: join.induct) auto

lemma join_chars: "set (join sep es) \<subseteq> set sep \<union> \<Union> (set ` set es)"
  by (induction sep es rule: join.induct) auto

lemma filepath_Base_last:
  assumes "l \<noteq> []" and "CHR ''/'' \<notin> set l"
  shows "filepath_Base (pre @ ''/'' @ l) = l"
proof -
  have r: "rev (pre @ ''/'' @ l) = rev l @ CHR ''/'' # rev pre" by simp
  from assms obtain c cs where rl: "rev l = c # cs"
    by (cases "rev l") auto
  then have "c \<in> set l" by (metis list.set_intros(1) set_rev)
  with assms have c: "c \<noteq> CHR ''/''" by auto
  have d: "dropWhile (\<lambda>c. c = CHR ''/'') (rev l @ CHR ''/'' # rev pre) = rev l @ CHR ''/'' # rev pre"
    unfolding rl using c by simp
  have t: "takeWhile (\<lambda>c. c \<noteq> CHR ''/'') (rev l @ CHR ''/'' # rev pre) = rev l"
  proof -
    from assms have "\<forall>x \<in> set (rev l). x \<noteq> CHR ''/''" by auto
    then show ?thesis by (simp add: takeWhile_tail)
  qed
  have "filepath_Base (pre @ ''/'' @ l) =
          (if pre @ ''/'' @ l = [] then ''.'' else if rev (rev l) = [] then ''/'' else rev (rev l))"
    by (simp only: filepath_Base_def Let_def rev_rev_ident r d t)
  with assms show ?thesis by simp
qed

lemma filepath_Base_rooted:
  assumes "\<forall>e \<in> set es. good_elem e"
  shows "filepath_Base (''/'' @ join ''/'' es) = (if es = [] then ''/'' else last es)"
proof (cases es rule: rev_cases)
  case Nil
  then show ?thesis by (simp add: filepath_Base_def)
next
  case (snoc xs l)
  with assms have l: "l \<noteq> []" "CHR ''/'' \<notin> set l" by (auto simp: good_elem_def)
  have "''/'' @ join ''/'' (xs @ [l]) = (if xs = [] then [] else ''/'' @ join ''/'' xs) @ ''/'' @ l"
    by (simp add: join_snoc)
  then have "filepath_Base (''/'' @ join ''/'' (xs @ [l])) = l"
    using filepath_Base_last [OF l] by metis
  with snoc show ?thesis by simp
qed

lemma path_Clean_rooted:
  "path_Clean (CHR ''/'' # f) = ''/'' @ join ''/'' (clean_elems True [] (split_on CHR ''/'' (CHR ''/'' # f)))"
  by (simp add: path_Clean_def)

lemma extractFilename_accepts:
  assumes "extractFilename w r = Inr name"
  shows "good_elem name \<and> set name \<subseteq> set (derivedName w r)
         \<and> name = filepath_Base (path_Clean (''/'' @ derivedName w r))"
proof -
  let ?f = "derivedName w r"
  let ?es = "clean_elems True [] (split_on CHR ''/'' (CHR ''/'' # ?f))"
  have g: "\<forall>e \<in> set ?es. good_elem e"
    by (rule clean_elems_rooted_good) (auto dest: split_on_no_sep)
  have b: "filepath_Base (path_Clean (''/'' @ ?f)) = (if ?es = [] then ''/'' else last ?es)"
    using filepath_Base_rooted [OF g] by (simp add: path_Clean_rooted)
  from assms have n: "name = filepath_Base (path_Clean (''/'' @ ?f))" and "name \<noteq> ''/''"
    by (auto simp: extractFilename_def Let_def split: if_splits)
  with b have ne: "?es \<noteq> []" and l: "name = last ?es" by (auto split: if_splits)
  then have m: "name \<in> set ?es" by simp
  with g have "good_elem name" by blast
  moreover from m have "name \<in> set (split_on CHR ''/'' (CHR ''/'' # ?f))"
    using clean_elems_subset [of True "[]"] by auto
  then have "set name \<subseteq> set (CHR ''/'' # ?f)" by (rule split_on_chars)
  with \<open>good_elem name\<close> have "set name \<subseteq> set ?f" by (auto simp: good_elem_def)
  ultimately show ?thesis using n by simp
qed

text \<open>
  Claim C4, as amended. \<^verbatim>\<open>extractFilename\<close> fails, with \<^verbatim>\<open>ErrMissingFilename\<close> and
  with no other error, for every derived name that is empty, ends in \<^verbatim>\<open>/\<close> or
  contains a NUL. Every name it accepts is the last element of the cleaned path
  \<^verbatim>\<open>"/" + name\<close>: it is not empty, is neither \<^verbatim>\<open>.\<close> nor \<^verbatim>\<open>..\<close>, and has no
  separator and no NUL in it, so that it names an entry of the working directory.
\<close>

theorem extractFilename_sanitizes:
  "(derivedName w r = [] \<or> strings_HasSuffix (derivedName w r) ''/''
      \<or> strings_Contains (derivedName w r) [CHR 0x00]
     \<longrightarrow> extractFilename w r = Inl ErrMissingFilename)
   \<and> (extractFilename w r = Inl e \<longrightarrow> e = ErrMissingFilename)
   \<and> (extractFilename w r = Inr name \<longrightarrow>
        name = filepath_Base (path_Clean (''/'' @ derivedName w r))
        \<and> name \<noteq> [] \<and> name \<noteq> ''.'' \<and> name \<noteq> ''..''
        \<and> CHR ''/'' \<notin> set name \<and> CHR 0x00 \<notin> set name)"
proof (intro conjI impI)
  assume "derivedName w r = [] \<or> strings_HasSuffix (derivedName w r) ''/''
      \<or> strings_Contains (derivedName w r) [CHR 0x00]"
  then show "extractFilename w r = Inl ErrMissingFilename"
    by (auto simp: extractFilename_def)
next
  assume "extractFilename w r = Inl e"
  then show "e = ErrMissingFilename"
    by (auto simp: extractFilename_def Let_def split: if_splits)
next
  assume a: "extractFilename w r = Inr name"
  then have n: "\<not> strings_Contains (derivedName w r) [CHR 0x00]"
    by (auto simp: extractFilename_def Let_def split: if_splits)
  from extractFilename_accepts [OF a] n
  show "name = filepath_Base (path_Clean (''/'' @ derivedName w r))"
    and "name \<noteq> []" and "name \<noteq> ''.''" and "name \<noteq> ''..''"
    and "CHR ''/'' \<notin> set name" and "CHR 0x00 \<notin> set name"
    by (auto simp: good_elem_def strings_Contains_char)
qed

text \<open>A URL path that ends in a separator is refused; \<^verbatim>\<open>/pub/hello.txt\<close> gives \<^verbatim>\<open>hello.txt\<close>.\<close>

theorem extractFilename_sanitizes_witness:
  "strings_HasSuffix (derivedName quiet_world resp_directory) ''/''
   \<and> extractFilename quiet_world resp_directory = Inl ErrMissingFilename
   \<and> extractFilename quiet_world resp_hello = Inr ''hello.txt''
   \<and> ''hello.txt'' = filepath_Base (path_Clean (''/'' @ derivedName quiet_world resp_hello))"
proof -
  have d: "derivedName quiet_world resp_directory = ''/files/''"
    by (simp add: derivedName_def resp_directory_def resp_hello_def header_Get_def)
  have h: "extractFilename quiet_world resp_hello = Inr ''hello.txt''"
    by (simp add: extractFilename_def derivedName_def resp_hello_def header_Get_def
        strings_HasSuffix_def suffix_def path_Clean_def filepath_Base_def)
  show ?thesis
    using extractFilename_sanitizes [of quiet_world resp_directory ErrMissingFilename "''hello.txt''"]
      extractFilename_sanitizes [of quiet_world resp_hello ErrMissingFilename "''hello.txt''"] d h
    by (simp add: strings_HasSuffix_def suffix_def )
qed

text \<open>
  Claim C4 as stated fails: the derived name \<^verbatim>\<open>/files/../report.txt\<close> contains
  \<^verbatim>\<open>../\<close> and is not refused; it is cleaned to \<^verbatim>\<open>report.txt\<close>.
\<close>

theorem dotdot_name_accepted:
  "strings_Contains (derivedName quiet_world resp_traversal) ''../''
   \<and> extractFilename quiet_world resp_traversal = Inr ''report.txt''"
  by (simp add: extractFilename_def derivedName_def resp_traversal_def resp_hello_def header_Get_def
        strings_HasSuffix_def suffix_def path_Clean_def filepath_Base_def)

subsection \<open>The run of a task: the channel is closed once, at the end\<close>

lemma closes_append [simp]: "closes (xs @ ys) = closes xs + closes ys"
  by (simp add: closes_def)

lemma closes_simps [simp]: "closes [] = 0" "closes (e # tr) = (if is_close e then 1 else 0) + closes tr"
  by (simp_all add: closes_def)

lemma emit_simps [simp]:
  "trace (emit e s) = trace s @ [e]" "task (emit e s) = task s"
  "ticks (emit e s) = ticks s" "writes (emit e s) = writes s"
  by (simp_all add: emit_def)

lemma upd_simps [simp]:
  "trace (upd f s) = trace s" "task (upd f s) = f (task s)"
  "ticks (upd f s) = ticks s" "writes (upd f s) = writes s"
  by (simp_all add: upd_def)

lemma set_error_simps [simp]:
  "trace (set_error e s) = trace s @ [EvSetError e]" "task (set_error e s) = (task s)\<lparr>error := e\<rparr>"
  "ticks (set_error e s) = ticks s" "writes (set_error e s) = writes s"
  by (simp_all add: set_error_def)

lemma set_bytesRead_simps [simp]:
  "trace (set_bytesRead n s) = trace s @ [EvSetBytesRead n]"
  "task (set_bytesRead n s) = (task s)\<lparr>bytesRead := n\<rparr>"
  "ticks (set_bytesRead n s) = ticks s" "writes (set_bytesRead n s) = writes s"
  by (simp_all add: set_bytesRead_def)

lemma set_startTime_simps [simp]:
  "trace (set_startTime w s) = trace s"
  "task (set_startTime w s) = (task s)\<lparr>startTime := clock w (ticks s)\<rparr>"
  "ticks (set_startTime w s) = Suc (ticks s)" "writes (set_startTime w s) = writes s"
  by (simp_all add: set_startTime_def time_Now_def)

lemma set_endTime_simps [simp]:
  "trace (set_endTime w s) = trace s"
  "task (set_endTime w s) = (task s)\<lparr>endTime := clock w (ticks s)\<rparr>"
  "ticks (set_endTime w s) = Suc (ticks s)" "writes (set_endTime w s) = writes s"
  by (simp_all add: set_endTime_def time_Now_def)

lemma close_and_return_open:
  "completionChan (task s) = Open \<Longrightarrow>
   close_and_return w s =
     (Returned, set_endTime w (emit EvClose (upd (\<lambda>t. t\<lparr>completionChan := Closed\<rparr>) s)))"
  by (simp add: close_and_return_def close_completionChan_def)

lemma close_and_return_closed:
  "completionChan (task s) = Closed \<Longrightarrow>
   close_and_return w s = (Panicked close_of_closed_channel, s)"
  by (simp add: close_and_return_def close_completionChan_def)

lemma limiter_step_trace:
  "trace (limiter_step w s) = trace s \<or> (\<exists>d. trace (limiter_step w s) = trace s @ [EvSleep d])"
  by (auto simp: limiter_step_def split: prod.splits option.splits)

lemma limiter_step_task:
  "\<exists>rl. task (limiter_step w s) = (task s)\<lparr>rateLimiter := rl\<rparr>"
proof (cases "limit (rateLimiter (task s)) > 0")
  case True
  then show ?thesis
    by (auto simp: limiter_step_def split: prod.splits option.splits)
next
  case False
  then have "task (limiter_step w s) = (task s)\<lparr>rateLimiter := rateLimiter (task s)\<rparr>"
    by (simp add: limiter_step_def)
  then show ?thesis by blast
qed

lemma limiter_step_writes [simp]: "writes (limiter_step w s) = writes s"
  by (auto simp: limiter_step_def split: prod.splits option.splits)

lemma quiet_emit: "quiet s \<Longrightarrow> \<not> is_close e \<Longrightarrow> quiet (emit e s)"
  by (simp add: quiet_def)

lemma quiet_upd: "quiet s \<Longrightarrow> completionChan (f (task s)) = Open \<Longrightarrow> quiet (upd f s)"
  by (simp add: quiet_def)

lemma quiet_set_error: "quiet s \<Longrightarrow> quiet (set_error e s)"
  by (simp add: quiet_def)

lemma quiet_set_bytesRead: "quiet s \<Longrightarrow> quiet (set_bytesRead n s)"
  by (simp add: quiet_def)

lemma quiet_set_startTime: "quiet s \<Longrightarrow> quiet (set_startTime w s)"
  by (simp add: quiet_def)

lemma quiet_writes: "quiet s \<Longrightarrow> quiet (s\<lparr>writes := n\<rparr>)"
  by (simp add: quiet_def)

lemma quiet_limiter_step: "quiet s \<Longrightarrow> quiet (limiter_step w s)"
  using limiter_step_trace [of w s] limiter_step_task [of w s]
  by (auto simp: quiet_def)

lemma well_ended_close_and_return: "quiet s \<Longrightarrow> well_ended (close_and_return w s)"
  by (simp add: quiet_def close_and_return_open closed_last_def)

lemma quiet_copy_loop: "quiet s \<Longrightarrow> quiet (snd (copy_loop w rs s))"
proof (induction rs arbitrary: s)
  case Nil
  then show ?case by (simp add: quiet_emit quiet_limiter_step)
next
  case (Cons r rs)
  let ?s1 = "emit EvRead (limiter_step w s)"
  have q1: "quiet ?s1" using Cons.prems by (simp add: quiet_emit quiet_limiter_step)
  show ?case
  proof (cases r)
    case (ReadPanics p)
    with q1 show ?thesis by (simp add: Let_def)
  next
    case (ReadReturns buf err)
    let ?s2 = "(emit (EvWrite buf) ?s1)\<lparr>writes := Suc (writes ?s1)\<rparr>"
    have q2: "quiet ?s2" using q1 by (simp add: quiet_emit quiet_writes)
    show ?thesis
    proof (cases "fileWrite w (writes ?s1) buf")
      case (WritePanics p)
      with ReadReturns q1 q2 Cons.IH [OF q1] show ?thesis by (simp add: Let_def)
    next
      case (WriteReturns n err')
      let ?s3 = "set_bytesRead (wrap64 (bytesRead (task ?s2) + int (length buf))) ?s2"
      have q3: "quiet ?s3" using q2 by (rule quiet_set_bytesRead)
      from ReadReturns WriteReturns q1 q2 Cons.IH [OF q1] Cons.IH [OF q3] quiet_set_error [OF q2]
      show ?thesis by (auto simp: Let_def)
    qed
  qed
qed

lemma well_ended_transfer: "quiet s \<Longrightarrow> well_ended (transfer w name r fi s)"
proof -
  assume q: "quiet s"
  let ?total = "total_size r (isResumable (task s)) fi"
  let ?s2 = "set_startTime w (emit EvSpawnMonitor
     (upd (\<lambda>t. t\<lparr>destination := Some name, source := Body r,
                          fileName := name, totalFileSize := ?total\<rparr>) s))"
  have "quiet ?s2"
    using q by (simp add: quiet_def)
  then have q3: "quiet (snd (copy_loop w (Body r) ?s2))" by (rule quiet_copy_loop)
  obtain ex s3 where c: "copy_loop w (Body r) ?s2 = (ex, s3)" by (cases "copy_loop w (Body r) ?s2")
  with q3 have "quiet s3" by simp
  then have "well_ended (case ex of
           Break err \<Rightarrow> close_and_return w (set_error err s3)
         | LoopPanic p \<Rightarrow> (Panicked p, s3)
         | LoopBlocked \<Rightarrow> (Blocked, s3))"
    by (cases ex) (simp_all add: well_ended_close_and_return quiet_set_error)
  with c show ?thesis by (simp add: transfer_def Let_def)
qed

lemma well_ended_create_and_transfer:
  "quiet s \<Longrightarrow> well_ended (create_and_transfer w name r fi s)"
  by (cases "osCreate w name")
     (simp_all add: create_and_transfer_def Let_def well_ended_transfer
        well_ended_close_and_return quiet_emit)

lemma well_ended_check_response:
  "quiet s \<Longrightarrow> check_response w res s = Inl x \<Longrightarrow> well_ended x"
  by (cases res)
     (auto simp: check_response_def well_ended_close_and_return quiet_set_error
        split: option.splits if_splits)

lemma well_ended_resume:
  assumes "quiet s"
  shows "well_ended (resume w req name r info s)"
proof -
  let ?s1 = "emit EvBodyClose s"
  let ?req = "with_range req (Size info)"
  let ?s2 = "emit (EvRequest ?req) ?s1"
  let ?s3 = "emit (EvOpenFile name) ?s2"
  have q1: "quiet ?s1" and q2: "quiet ?s2" and q3: "quiet ?s3"
    using assms by (simp_all add: quiet_def)
  have q4: "quiet (upd (\<lambda>t. t\<lparr>isResumable := True\<rparr>)
                            (set_bytesRead (Size info) (emit EvSeekEnd ?s3)))"
    using assms by (simp add: quiet_def)
  show ?thesis
  proof (cases "Size info = ContentLength r")
    case True
    with q1 show ?thesis
      by (simp add: resume_def well_ended_close_and_return quiet_set_error)
  next
    case False
    show ?thesis
    proof (cases "check_response w (clientDo w 1 ?req) ?s2")
      case (Inl x)
      with False well_ended_check_response [OF q2 Inl] show ?thesis
        by (simp add: resume_def Let_def)
    next
      case (Inr r')
      with False q2 q3 q4 show ?thesis
        by (cases "osOpenFile w name")
           (simp_all add: resume_def Let_def well_ended_transfer well_ended_create_and_transfer
             well_ended_close_and_return)
    qed
  qed
qed

lemma well_ended_start_body:
  assumes "quiet s"
  shows "well_ended (start_body w s)"
proof (cases "newRequest_ok w (downloadURL (task s))")
  case False
  with assms show ?thesis by (simp add: start_body_def)
next
  case True
  let ?req = "initial_request (task s)"
  let ?s1 = "emit (EvRequest ?req) s"
  have q1: "quiet ?s1" using assms by (simp add: quiet_def)
  show ?thesis
  proof (cases "check_response w (clientDo w 0 ?req) ?s1")
    case (Inl x)
    with True well_ended_check_response [OF q1 Inl] show ?thesis
      by (simp add: start_body_def Let_def)
  next
    case (Inr r)
    have q2: "quiet (emit (EvStat (start_fileName w r)) ?s1)"
      using q1 by (simp add: quiet_def)
    with True Inr show ?thesis
      by (cases "osStat w (start_fileName w r)")
         (simp_all add: start_body_def Let_def well_ended_create_and_transfer well_ended_resume)
  qed
qed

lemma well_ended_start:
  assumes "completionChan dt = Open"
  shows "well_ended (start w dt)"
proof -
  have q: "quiet (init_exec dt)" using assms by (simp add: quiet_def init_exec_def)
  obtain oc s where b: "start_body w (init_exec dt) = (oc, s)" by (cases "start_body w (init_exec dt)")
  with well_ended_start_body [OF q, of w] have w: "well_ended (oc, s)" by simp
  show ?thesis
  proof (cases oc)
    case Returned
    with b w show ?thesis by (simp add: start_def)
  next
    case (Panicked p)
    with w have "quiet s" by simp
    then have "well_ended (close_and_return w (set_error (Some (recovered_error p)) s))"
      by (simp add: well_ended_close_and_return quiet_set_error)
    with b Panicked show ?thesis by (simp add: start_def)
  next
    case Blocked
    with b w show ?thesis by (simp add: start_def)
  qed
qed

subsection \<open>The run of a task: the counter of bytes\<close>

lemma bytesRead_values_append [simp]:
  "bytesRead_values (xs @ ys) = bytesRead_values xs @ bytesRead_values ys"
  by (induction xs rule: bytesRead_values.induct) simp_all

lemma body_bytes_nonneg: "0 \<le> body_bytes rs"
  by (induction rs rule: body_bytes.induct) simp_all

lemma writes_of_append [simp]: "writes_of (xs @ ys) = writes_of xs + writes_of ys"
  by (simp add: writes_of_def)

lemma writes_of_rev [simp]: "writes_of (rev tr) = writes_of tr"
  by (simp add: writes_of_def flip: rev_filter)

lemma writes_of_simps [simp]:
  "writes_of [] = 0" "writes_of (e # tr) = (if is_write e then Suc (writes_of tr) else writes_of tr)"
  by (simp_all add: writes_of_def)

lemma steps_back_skip:
  "bytesRead_values [e] = [] \<Longrightarrow> steps_back w (e # tr) = steps_back w tr"
  by (cases e) simp_all

lemma justified_quiet_suffix [simp]:
  "bytesRead_values ys = [] \<Longrightarrow>
   assignments_justified w (xs @ ys) = assignments_justified w xs"
proof (induction ys rule: rev_induct)
  case Nil
  then show ?case by simp
next
  case (snoc e ys)
  then have y: "bytesRead_values ys = []" and e: "bytesRead_values [e] = []" by simp_all
  have "rev (xs @ ys @ [e]) = e # rev (xs @ ys)" by simp
  then have "assignments_justified w (xs @ ys @ [e]) = steps_back w (e # rev (xs @ ys))"
    by (simp only: assignments_justified_def)
  also have "\<dots> = steps_back w (rev (xs @ ys))" using e by (rule steps_back_skip)
  also have "\<dots> = assignments_justified w xs"
    using snoc.IH [OF y] by (simp only: assignments_justified_def)
  finally show ?case .
qed

lemma justified_increment:
  "assignments_justified w (tr @ [EvWrite buf, EvSetBytesRead v]) =
     (fileWrite w (writes_of tr) buf = WriteReturns (int (length buf)) None
      \<and> v = last (0 # bytesRead_values tr) + int (length buf) \<and> assignments_justified w tr)"
  by (simp add: assignments_justified_def reason_before_def)

lemma justified_seed:
  "assignments_justified w (tr @ [EvOpenFile name, EvSeekEnd, EvSetBytesRead v]) =
     (bytesRead_values tr = []
      \<and> (case osStat w name of Inl err \<Rightarrow> False | Inr info \<Rightarrow> \<not> IsDir info \<and> v = Size info)
      \<and> assignments_justified w tr)"
  by (simp add: assignments_justified_def reason_before_def seeded_from_def)

lemma counter_inv_nonneg: "counter_inv w s \<Longrightarrow> 0 \<le> bytesRead (task s)"
  by (cases "bytesRead_values (trace s)" rule: rev_cases)
     (auto simp: counter_inv_def sorted_append)

lemma counter_inv_emit:
  "counter_inv w s \<Longrightarrow> bytesRead_values [e] = [] \<Longrightarrow> \<not> is_write e \<Longrightarrow>
   counter_inv w (emit e s)"
  by (simp add: counter_inv_def)

lemma counter_inv_upd:
  "counter_inv w s \<Longrightarrow> bytesRead (f (task s)) = bytesRead (task s) \<Longrightarrow> counter_inv w (upd f s)"
  by (simp add: counter_inv_def)

lemma counter_inv_set_error: "counter_inv w s \<Longrightarrow> counter_inv w (set_error e s)"
  by (simp add: counter_inv_def)

lemma counter_inv_set_startTime: "counter_inv w s \<Longrightarrow> counter_inv w (set_startTime w' s)"
  by (simp add: counter_inv_def)

lemma counter_inv_set_endTime: "counter_inv w s \<Longrightarrow> counter_inv w (set_endTime w' s)"
  by (simp add: counter_inv_def)

lemma counter_inv_write:
  "counter_inv w s \<Longrightarrow> counter_inv w ((emit (EvWrite buf) s)\<lparr>writes := Suc (writes s)\<rparr>)"
  by (simp add: counter_inv_def)

lemma counter_inv_increment:
  assumes "counter_inv w s" and "v = bytesRead (task s) + int (length buf)"
    and "fileWrite w (writes s) buf = WriteReturns (int (length buf)) None"
  shows "counter_inv w (set_bytesRead v ((emit (EvWrite buf) s)\<lparr>writes := Suc (writes s)\<rparr>))"
proof -
  have "assignments_justified w (trace s @ [EvWrite buf, EvSetBytesRead v])"
    using assms by (simp add: justified_increment counter_inv_def)
  moreover have "sorted (0 # bytesRead_values (trace s) @ [v])"
    using assms by (cases "bytesRead_values (trace s)" rule: rev_cases)
      (auto simp: counter_inv_def sorted_append)
  moreover have "writes s = writes_of (trace s)" using assms(1) by (simp add: counter_inv_def)
  ultimately show ?thesis by (simp add: counter_inv_def)
qed

lemma counter_inv_seed:
  assumes "counter_inv w s" and "bytesRead_values (trace s) = []"
    and "osStat w name = Inr info" and "\<not> IsDir info" and "0 \<le> Size info"
  shows "counter_inv w (set_bytesRead (Size info) (emit EvSeekEnd (emit (EvOpenFile name) s)))"
proof -
  have "assignments_justified w (trace s @ [EvOpenFile name, EvSeekEnd, EvSetBytesRead (Size info)])"
    using assms by (simp add: justified_seed counter_inv_def)
  with assms show ?thesis by (simp add: counter_inv_def)
qed

lemma counter_inv_limiter_step: "counter_inv w s \<Longrightarrow> counter_inv w (limiter_step w' s)"
  using limiter_step_trace [of w' s] limiter_step_task [of w' s]
  by (auto simp: counter_inv_def)

lemma bytesRead_limiter_step [simp]: "bytesRead (task (limiter_step w s)) = bytesRead (task s)"
  using limiter_step_task [of w s] by auto

lemma counter_inv_close_and_return:
  "counter_inv w s \<Longrightarrow> counter_inv w (snd (close_and_return w' s))"
  by (cases "completionChan (task s)")
     (simp_all add: close_and_return_open close_and_return_closed counter_inv_def)

lemma counter_inv_copy_loop:
  "counter_inv w s \<Longrightarrow> bytesRead (task s) + body_bytes rs \<le> maxInt64 \<Longrightarrow>
   counter_inv w (snd (copy_loop w rs s))"
proof (induction rs arbitrary: s)
  case Nil
  then show ?case by (simp add: counter_inv_emit counter_inv_limiter_step)
next
  case (Cons r rs)
  let ?s1 = "emit EvRead (limiter_step w s)"
  have c1: "counter_inv w ?s1"
    using Cons.prems by (simp add: counter_inv_emit counter_inv_limiter_step)
  have b1: "bytesRead (task ?s1) = bytesRead (task s)" by simp
  show ?case
  proof (cases r)
    case (ReadPanics p)
    with c1 show ?thesis by (simp add: Let_def)
  next
    case (ReadReturns buf err)
    let ?s2 = "(emit (EvWrite buf) ?s1)\<lparr>writes := Suc (writes ?s1)\<rparr>"
    have c2: "counter_inv w ?s2" using c1 by (rule counter_inv_write)
    from ReadReturns Cons.prems(2)
    have bound: "bytesRead (task s) + int (length buf) + body_bytes rs \<le> maxInt64" by simp
    have rest: "bytesRead (task ?s1) + body_bytes rs \<le> maxInt64"
      using bound by simp
    show ?thesis
    proof (cases "fileWrite w (writes ?s1) buf")
      case (WritePanics p)
      with ReadReturns c1 c2 Cons.IH [OF c1 rest] show ?thesis by (simp add: Let_def)
    next
      case (WriteReturns n err')
      let ?v = "wrap64 (bytesRead (task ?s2) + int (length buf))"
      let ?s3 = "set_bytesRead ?v ?s2"
      have "0 \<le> bytesRead (task s)" using Cons.prems(1) by (rule counter_inv_nonneg)
      with bound body_bytes_nonneg [of rs]
      have "in_int64 (bytesRead (task s) + int (length buf))"
        by (simp add: in_int64_def minInt64_def maxInt64_def)
      then have v: "?v = bytesRead (task s) + int (length buf)"
        by (simp add: wrap64_id)
      have b3: "bytesRead (task ?s3) + body_bytes rs \<le> maxInt64"
        using v bound by simp
      show ?thesis
      proof (cases "err' = None \<and> n = int (length buf)")
        case True
        with WriteReturns
        have ok: "fileWrite w (writes ?s1) buf = WriteReturns (int (length buf)) None" by simp
        have c3: "counter_inv w ?s3"
          by (rule counter_inv_increment [OF c1 _ ok]) (use v in simp)
        from ReadReturns WriteReturns True c1 Cons.IH [OF c1 rest] Cons.IH [OF c3 b3]
        show ?thesis by (auto simp: Let_def)
      next
        case False
        from ReadReturns WriteReturns False c1 Cons.IH [OF c1 rest]
          counter_inv_set_error [OF c2]
        show ?thesis by (auto simp: Let_def)
      qed
    qed
  qed
qed

subsection \<open>The run of a task: it ends, and a panic is recovered\<close>

lemma check_response_Inr:
  "check_response w res s = Inr r \<Longrightarrow>
   res = (Some r, None) \<and> (StatusCode r = 200 \<or> StatusCode r = 206)"
  by (cases res) (auto simp: check_response_def split: option.splits if_splits)

lemma close_and_return_not_blocked: "fst (close_and_return w s) \<noteq> Blocked"
  by (simp add: close_and_return_def split: sum.splits)

lemma copy_loop_not_blocked: "body_ends rs \<Longrightarrow> fst (copy_loop w rs s) \<noteq> LoopBlocked"
proof (induction rs arbitrary: s)
  case Nil
  then show ?case by (simp add: body_ends_def)
next
  case (Cons r rs)
  show ?case
  proof (cases "ends_read r")
    case True
    then show ?thesis
      by (cases r) (auto simp: Let_def)
  next
    case False
    with Cons.prems have "body_ends rs" by (simp add: body_ends_def)
    then have ih: "fst (copy_loop w rs s') \<noteq> LoopBlocked" for s' by (rule Cons.IH)
    show ?thesis
      by (cases r) (auto simp: Let_def ih split: write_result.splits)
  qed
qed

lemma transfer_not_blocked:
  assumes "body_ends (Body r)"
  shows "fst (transfer w name r fi s) \<noteq> Blocked"
proof -
  have "fst (case x of
           (Break err, s3) \<Rightarrow> close_and_return w (set_error err s3)
         | (LoopPanic p, s3) \<Rightarrow> (Panicked p, s3)
         | (LoopBlocked, s3) \<Rightarrow> (Blocked, s3)) \<noteq> Blocked"
    if "fst x \<noteq> LoopBlocked" for x
    using that by (cases x; cases "fst x") (auto simp: close_and_return_not_blocked)
  with copy_loop_not_blocked [OF assms] show ?thesis
    by (simp add: transfer_def Let_def)
qed

lemma create_and_transfer_not_blocked:
  "body_ends (Body r) \<Longrightarrow> fst (create_and_transfer w name r fi s) \<noteq> Blocked"
  by (cases "osCreate w name")
     (simp_all add: create_and_transfer_def Let_def transfer_not_blocked close_and_return_not_blocked)

lemma check_response_not_blocked: "check_response w res s = Inl x \<Longrightarrow> fst x \<noteq> Blocked"
  by (cases res)
     (auto simp: check_response_def close_and_return_not_blocked split: option.splits if_splits)

lemma resume_not_blocked:
  assumes "\<And>k req r e. clientDo w k req = (Some r, e) \<Longrightarrow> body_ends (Body r)"
  shows "fst (resume w req name r info s) \<noteq> Blocked"
proof (cases "Size info = ContentLength r")
  case True
  then show ?thesis by (simp add: resume_def close_and_return_not_blocked)
next
  case False
  let ?req = "with_range req (Size info)"
  let ?s2 = "emit (EvRequest ?req) (emit EvBodyClose s)"
  show ?thesis
  proof (cases "check_response w (clientDo w 1 ?req) ?s2")
    case (Inl x)
    with False check_response_not_blocked [OF Inl] show ?thesis
      by (simp add: resume_def Let_def)
  next
    case (Inr r')
    from check_response_Inr [OF Inr] assms have "body_ends (Body r')" by blast
    with False Inr show ?thesis
      by (cases "osOpenFile w name")
         (simp_all add: resume_def Let_def transfer_not_blocked create_and_transfer_not_blocked
            close_and_return_not_blocked)
  qed
qed

lemma start_body_not_blocked:
  assumes "\<And>k req r e. clientDo w k req = (Some r, e) \<Longrightarrow> body_ends (Body r)"
  shows "fst (start_body w s) \<noteq> Blocked"
proof (cases "newRequest_ok w (downloadURL (task s))")
  case False
  then show ?thesis by (simp add: start_body_def)
next
  case True
  let ?req = "initial_request (task s)"
  let ?s1 = "emit (EvRequest ?req) s"
  show ?thesis
  proof (cases "check_response w (clientDo w 0 ?req) ?s1")
    case (Inl x)
    with True check_response_not_blocked [OF Inl] show ?thesis
      by (simp add: start_body_def Let_def)
  next
    case (Inr r)
    from check_response_Inr [OF Inr] assms have "body_ends (Body r)" by blast
    with True Inr resume_not_blocked [OF assms] show ?thesis
      by (cases "osStat w (start_fileName w r)")
         (simp_all add: start_body_def Let_def create_and_transfer_not_blocked)
  qed
qed

lemma start_not_blocked:
  assumes "\<And>k req r e. clientDo w k req = (Some r, e) \<Longrightarrow> body_ends (Body r)"
  shows "fst (start w dt) \<noteq> Blocked"
proof -
  obtain oc s where b: "start_body w (init_exec dt) = (oc, s)" by (cases "start_body w (init_exec dt)")
  with start_body_not_blocked [where s = "init_exec dt" and w = w, OF assms]
  have "oc \<noteq> Blocked" by simp
  with b show ?thesis
    by (cases oc) (simp_all add: start_def close_and_return_not_blocked)
qed

lemma closed_last_closes: "closed_last s \<Longrightarrow> closes (trace s) = 1"
proof -
  assume c: "closed_last s"
  then have "trace s = butlast (trace s) @ [EvClose]"
    by (metis append_butlast_last_id closed_last_def)
  then have "closes (trace s) = closes (butlast (trace s)) + closes [EvClose]"
    by (metis closes_append)
  with c show ?thesis by (simp add: closed_last_def)
qed

lemma start_Panicked:
  assumes "completionChan dt = Open" and "start_body w (init_exec dt) = (Panicked p, s)"
  shows "fst (start w dt) = Returned \<and> error (task (snd (start w dt))) = Some (recovered_error p)
    \<and> trace (snd (start w dt)) = trace s @ [EvSetError (Some (recovered_error p)), EvClose]"
proof -
  have "quiet (init_exec dt)" using assms by (simp add: quiet_def init_exec_def)
  from well_ended_start_body [OF this, of w] assms have "quiet s" by simp
  then have "completionChan (task s) = Open" by (simp add: quiet_def)
  with assms show ?thesis by (simp add: start_def close_and_return_open)
qed

text \<open>
  Claim C6. For every task whose channel is open when \<^verbatim>\<open>start\<close> is called, and every
  world: no panic leaves \<^verbatim>\<open>start\<close>; a run that returns has closed the channel exactly
  once, as its last event; a run that waits for ever in a read has not closed it; when
  the body of \<^verbatim>\<open>start\<close> panics, \<^verbatim>\<open>start\<close> returns all the same, and its last two
  steps are the assignment of the fault to the error of the task and the closing of
  the channel, where a panic with a string gives the error with that string as its
  message, a panic with an error gives that very error, and a panic with any other
  value gives the error with the message \<^verbatim>\<open>unknown panic occurred\<close>; and when the
  body of every response the server gives ends, the run returns.
\<close>

theorem recovery_barrier:
  assumes "completionChan dt = Open"
  shows "(\<forall>p. fst (start w dt) \<noteq> Panicked p)
    \<and> (fst (start w dt) = Returned \<longrightarrow>
         closes (trace (snd (start w dt))) = 1 \<and> last (trace (snd (start w dt))) = EvClose)
    \<and> (fst (start w dt) = Blocked \<longrightarrow> closes (trace (snd (start w dt))) = 0)
    \<and> (\<forall>m s. start_body w (init_exec dt) = (Panicked (PanicString m), s) \<longrightarrow>
         fst (start w dt) = Returned
         \<and> error (task (snd (start w dt))) = Some (ErrorString m)
         \<and> trace (snd (start w dt)) = trace s @ [EvSetError (Some (ErrorString m)), EvClose])
    \<and> (\<forall>e s. start_body w (init_exec dt) = (Panicked (PanicError e), s) \<longrightarrow>
         fst (start w dt) = Returned
         \<and> error (task (snd (start w dt))) = Some e
         \<and> trace (snd (start w dt)) = trace s @ [EvSetError (Some e), EvClose])
    \<and> (\<forall>s. start_body w (init_exec dt) = (Panicked PanicOther, s) \<longrightarrow>
         fst (start w dt) = Returned
         \<and> error (task (snd (start w dt))) = Some (ErrorString ''unknown panic occurred'')
         \<and> trace (snd (start w dt))
             = trace s @ [EvSetError (Some (ErrorString ''unknown panic occurred'')), EvClose])
    \<and> ((\<forall>k req r e. clientDo w k req = (Some r, e) \<longrightarrow> body_ends (Body r)) \<longrightarrow>
         fst (start w dt) = Returned)"
proof -
  obtain oc s where st: "start w dt = (oc, s)" by (cases "start w dt")
  from well_ended_start [OF assms, of w] st have we: "well_ended (oc, s)" by simp
  have np: "oc \<noteq> Panicked p" for p
  proof
    assume "oc = Panicked p"
    with we have "quiet s" by simp
    obtain oc0 s0 where b: "start_body w (init_exec dt) = (oc0, s0)"
      by (cases "start_body w (init_exec dt)")
    show False
    proof (cases oc0)
      case Returned
      with b st \<open>oc = Panicked p\<close> show False by (simp add: start_def)
    next
      case (Panicked q)
      with b start_Panicked [OF assms, of w q s0] st \<open>oc = Panicked p\<close> show False by simp
    next
      case Blocked
      with b st \<open>oc = Panicked p\<close> show False by (simp add: start_def)
    qed
  qed
  have r: "closes (trace s) = 1 \<and> last (trace s) = EvClose" if "oc = Returned"
    using that we closed_last_closes [of s] by (simp add: closed_last_def)
  have bl: "closes (trace s) = 0" if "oc = Blocked"
    using that we by (simp add: quiet_def)
  have nb: "oc = Returned" if "\<forall>k req r e. clientDo w k req = (Some r, e) \<longrightarrow> body_ends (Body r)"
  proof -
    from that have "fst (start w dt) \<noteq> Blocked" by (intro start_not_blocked) blast
    with st np show ?thesis by (cases oc) auto
  qed
  have ps: "fst (start w dt) = Returned
         \<and> error (task (snd (start w dt))) = Some (ErrorString m)
         \<and> trace (snd (start w dt)) = trace s0 @ [EvSetError (Some (ErrorString m)), EvClose]"
    if "start_body w (init_exec dt) = (Panicked (PanicString m), s0)" for m s0
    using start_Panicked [OF assms that] by simp
  have pe: "fst (start w dt) = Returned
         \<and> error (task (snd (start w dt))) = Some e
         \<and> trace (snd (start w dt)) = trace s0 @ [EvSetError (Some e), EvClose]"
    if "start_body w (init_exec dt) = (Panicked (PanicError e), s0)" for e s0
    using start_Panicked [OF assms that] by simp
  have po: "fst (start w dt) = Returned
         \<and> error (task (snd (start w dt))) = Some (ErrorString ''unknown panic occurred'')
         \<and> trace (snd (start w dt))
             = trace s0 @ [EvSetError (Some (ErrorString ''unknown panic occurred'')), EvClose]"
    if "start_body w (init_exec dt) = (Panicked PanicOther, s0)" for s0
    using start_Panicked [OF assms that] by simp
  from np r bl nb st have
    "(\<forall>p. fst (start w dt) \<noteq> Panicked p)
    \<and> (fst (start w dt) = Returned \<longrightarrow>
         closes (trace (snd (start w dt))) = 1 \<and> last (trace (snd (start w dt))) = EvClose)
    \<and> (fst (start w dt) = Blocked \<longrightarrow> closes (trace (snd (start w dt))) = 0)"
    and "(\<forall>k req r e. clientDo w k req = (Some r, e) \<longrightarrow> body_ends (Body r)) \<longrightarrow>
         fst (start w dt) = Returned"
    by auto
  with ps pe po show ?thesis by blast
qed

subsection \<open>The run of a task: the counter never decreases\<close>

lemma after_close_none: "closes tr = 0 \<Longrightarrow> after_close tr = []"
proof -
  assume "closes tr = 0"
  then have "\<forall>e \<in> set tr. \<not> is_close e"
    by (simp add: closes_def filter_empty_conv)
  then have d: "dropWhile (\<lambda>e. \<not> is_close e) tr = []"
    by (induction tr) auto
  show ?thesis unfolding after_close_def d by simp
qed

lemma after_close_last: "closed_last s \<Longrightarrow> after_close (trace s) = []"
proof -
  assume c: "closed_last s"
  then have t: "trace s = butlast (trace s) @ [EvClose]"
    by (metis append_butlast_last_id closed_last_def)
  from c have "\<forall>e \<in> set (butlast (trace s)). \<not> is_close e"
    by (simp add: closed_last_def closes_def filter_empty_conv)
  then have "dropWhile (\<lambda>e. \<not> is_close e) (butlast (trace s) @ [EvClose]) = [EvClose]"
    by (simp add: dropWhile_append)
  with t show ?thesis by (simp add: after_close_def)
qed

lemma counter_inv_transfer:
  assumes "counter_inv w s" and "bytesRead (task s) + body_bytes (Body r) \<le> maxInt64"
  shows "counter_inv w (snd (transfer w name r fi s))"
proof -
  let ?s2 = "set_startTime w (emit EvSpawnMonitor
     (upd (\<lambda>t. t\<lparr>destination := Some name, source := Body r,
                          fileName := name,
                          totalFileSize := total_size r (isResumable (task s)) fi\<rparr>) s))"
  have "counter_inv w ?s2" using assms(1) by (simp add: counter_inv_def)
  moreover have "bytesRead (task ?s2) + body_bytes (Body r) \<le> maxInt64" using assms(2) by simp
  ultimately have c3: "counter_inv w (snd (copy_loop w (Body r) ?s2))"
    by (rule counter_inv_copy_loop)
  obtain ex s3 where c: "copy_loop w (Body r) ?s2 = (ex, s3)" by (cases "copy_loop w (Body r) ?s2")
  with c3 have "counter_inv w s3" by simp
  then have "counter_inv w (snd (case ex of
           Break err \<Rightarrow> close_and_return w (set_error err s3)
         | LoopPanic p \<Rightarrow> (Panicked p, s3)
         | LoopBlocked \<Rightarrow> (Blocked, s3)))"
    by (cases ex) (simp_all add: counter_inv_close_and_return counter_inv_set_error)
  with c show ?thesis by (simp add: transfer_def Let_def)
qed

lemma counter_inv_create_and_transfer:
  assumes "counter_inv w s" and "bytesRead (task s) + body_bytes (Body r) \<le> maxInt64"
  shows "counter_inv w (snd (create_and_transfer w name r fi s))"
proof -
  have e: "counter_inv w (emit (EvCreate name) s)" using assms(1) by (simp add: counter_inv_emit)
  have b: "bytesRead (task (emit (EvCreate name) s)) + body_bytes (Body r) \<le> maxInt64"
    using assms(2) by simp
  show ?thesis
    by (cases "osCreate w name")
       (simp_all add: create_and_transfer_def Let_def counter_inv_transfer [OF e b]
          counter_inv_close_and_return [OF e])
qed

lemma counter_inv_check_response:
  "counter_inv w s \<Longrightarrow> check_response w res s = Inl x \<Longrightarrow> counter_inv w (snd x)"
  by (cases res)
     (auto simp: check_response_def counter_inv_close_and_return counter_inv_set_error
        split: option.splits if_splits)

lemma counter_inv_resume:
  assumes c: "counter_inv w s" and z: "bytesRead (task s) = 0" and f: "bytesRead_values (trace s) = []"
    and stat: "osStat w name = Inr info" and nodir: "\<not> IsDir info"
    and size: "0 \<le> Size info" "Size info < 2 ^ 62"
    and bodies: "\<And>k req r e. clientDo w k req = (Some r, e) \<Longrightarrow> body_bytes (Body r) < 2 ^ 62"
  shows "counter_inv w (snd (resume w req name r info s))"
proof (cases "Size info = ContentLength r")
  case True
  with c show ?thesis
    by (simp add: resume_def counter_inv_close_and_return counter_inv_set_error counter_inv_emit)
next
  case False
  let ?req = "with_range req (Size info)"
  let ?s2 = "emit (EvRequest ?req) (emit EvBodyClose s)"
  let ?s3 = "emit (EvOpenFile name) ?s2"
  let ?s4 = "upd (\<lambda>t. t\<lparr>isResumable := True\<rparr>) (set_bytesRead (Size info) (emit EvSeekEnd ?s3))"
  have c2: "counter_inv w ?s2" and c3: "counter_inv w ?s3"
    using c by (simp_all add: counter_inv_def)
  have "counter_inv w (set_bytesRead (Size info) (emit EvSeekEnd ?s3))"
    by (rule counter_inv_seed [OF c2 _ stat nodir size(1)]) (use f in simp)
  then have c4: "counter_inv w ?s4" by (rule counter_inv_upd) simp
  show ?thesis
  proof (cases "check_response w (clientDo w 1 ?req) ?s2")
    case (Inl x)
    with False counter_inv_check_response [OF c2 Inl] show ?thesis
      by (simp add: resume_def Let_def)
  next
    case (Inr r')
    from check_response_Inr [OF Inr] bodies have b: "body_bytes (Body r') < 2 ^ 62" by blast
    have b2: "bytesRead (task ?s2) + body_bytes (Body r') \<le> maxInt64"
      using b z by (simp add: maxInt64_def)
    have b4: "bytesRead (task ?s4) + body_bytes (Body r') \<le> maxInt64"
      using b size(2) by (simp add: maxInt64_def)
    from False Inr show ?thesis
      by (cases "osOpenFile w name")
         (simp_all add: resume_def Let_def counter_inv_transfer [OF c4 b4]
            counter_inv_create_and_transfer [OF c2 b2] counter_inv_close_and_return [OF c3])
  qed
qed

lemma counter_inv_start_body:
  assumes c: "counter_inv w s" and z: "bytesRead (task s) = 0" and f: "bytesRead_values (trace s) = []"
    and sizes: "\<And>name info. osStat w name = Inr info \<Longrightarrow> 0 \<le> Size info \<and> Size info < 2 ^ 62"
    and bodies: "\<And>k req r e. clientDo w k req = (Some r, e) \<Longrightarrow> body_bytes (Body r) < 2 ^ 62"
  shows "counter_inv w (snd (start_body w s))"
proof (cases "newRequest_ok w (downloadURL (task s))")
  case False
  with c show ?thesis by (simp add: start_body_def)
next
  case True
  let ?req = "initial_request (task s)"
  let ?s1 = "emit (EvRequest ?req) s"
  have c1: "counter_inv w ?s1" using c by (simp add: counter_inv_def)
  show ?thesis
  proof (cases "check_response w (clientDo w 0 ?req) ?s1")
    case (Inl x)
    with True counter_inv_check_response [OF c1 Inl] show ?thesis
      by (simp add: start_body_def Let_def)
  next
    case (Inr r)
    let ?s2 = "emit (EvStat (start_fileName w r)) ?s1"
    have c2: "counter_inv w ?s2" using c by (simp add: counter_inv_def)
    have z2: "bytesRead (task ?s2) = 0" and f2: "bytesRead_values (trace ?s2) = []"
      using z f by simp_all
    from check_response_Inr [OF Inr] bodies have "body_bytes (Body r) < 2 ^ 62" by blast
    then have b2: "bytesRead (task ?s2) + body_bytes (Body r) \<le> maxInt64"
      using z by (simp add: maxInt64_def)
    show ?thesis
    proof (cases "osStat w (start_fileName w r)")
      case (Inl e)
      with True Inr show ?thesis
        by (simp add: start_body_def Let_def counter_inv_create_and_transfer [OF c2 b2])
    next
      case st: (Inr info)
      from sizes [OF st] have s0: "0 \<le> Size info" and s1: "Size info < 2 ^ 62" by simp_all
      have "counter_inv w (snd (resume w ?req (start_fileName w r) r info ?s2))"
        if "\<not> IsDir info"
        using c2 z2 f2 st that s0 s1 by (rule counter_inv_resume) (rule bodies)
      with True Inr st show ?thesis
        by (simp add: start_body_def Let_def counter_inv_create_and_transfer [OF c2 b2])
    qed
  qed
qed

lemma counter_inv_start:
  assumes z: "bytesRead dt = 0"
    and sizes: "\<And>name info. osStat w name = Inr info \<Longrightarrow> 0 \<le> Size info \<and> Size info < 2 ^ 62"
    and bodies: "\<And>k req r e. clientDo w k req = (Some r, e) \<Longrightarrow> body_bytes (Body r) < 2 ^ 62"
  shows "counter_inv w (snd (start w dt))"
proof -
  have c: "counter_inv w (init_exec dt)" and z0: "bytesRead (task (init_exec dt)) = 0"
    and f0: "bytesRead_values (trace (init_exec dt)) = []"
    using z by (simp_all add: counter_inv_def init_exec_def assignments_justified_def)
  obtain oc s where b: "start_body w (init_exec dt) = (oc, s)" by (cases "start_body w (init_exec dt)")
  have "counter_inv w (snd (start_body w (init_exec dt)))"
    using c z0 f0 by (rule counter_inv_start_body) (rule sizes, assumption, rule bodies)
  with b have "counter_inv w s" by simp
  with b show ?thesis
    by (cases oc) (simp_all add: start_def counter_inv_close_and_return counter_inv_set_error)
qed

text \<open>
  Claim C10. For every task that starts with an open channel and the counter 0, in
  every world whose files have a size from 0 to less than \<open>2 ^ 62\<close> and whose
  response bodies hold less than \<open>2 ^ 62\<close> bytes (so that the \<^verbatim>\<open>int64\<close> counter does
  not overflow): the values assigned to \<^verbatim>\<open>bytesRead\<close> during the run, after the
  initial 0, never decrease; the counter at the end is the last of them; each of them
  is either an increment after a successful write (it is assigned directly after a
  call of \<^verbatim>\<open>Write\<close> that returned the number of bytes it was given and no error, and
  adds that number to the value before), or the seed (the first value assigned,
  directly after the seek to the end of the reopened file, and equal to the size
  \<^verbatim>\<open>os.Stat\<close> gives for that file, which is no directory); and after the channel is
  closed neither \<^verbatim>\<open>bytesRead\<close> nor \<^verbatim>\<open>error\<close> is assigned again.
\<close>

theorem bytesRead_monotonic:
  assumes "completionChan dt = Open" and "bytesRead dt = 0"
    and "\<forall>name info. osStat w name = Inr info \<longrightarrow> 0 \<le> Size info \<and> Size info < 2 ^ 62"
    and "\<forall>k req r e. clientDo w k req = (Some r, e) \<longrightarrow> body_bytes (Body r) < 2 ^ 62"
  shows "sorted (0 # bytesRead_values (trace (snd (start w dt))))
    \<and> bytesRead (task (snd (start w dt))) = last (0 # bytesRead_values (trace (snd (start w dt))))
    \<and> assignments_justified w (trace (snd (start w dt)))
    \<and> \<not> list_ex is_field_write (after_close (trace (snd (start w dt))))"
proof -
  have "counter_inv w (snd (start w dt))"
    using assms(2) by (rule counter_inv_start) (use assms(3,4) in blast)+
  moreover have "after_close (trace (snd (start w dt))) = []"
  proof -
    obtain oc s where st: "start w dt = (oc, s)" by (cases "start w dt")
    with well_ended_start [OF assms(1), of w] have "well_ended (oc, s)" by simp
    then have "after_close (trace s) = []"
      by (cases oc) (simp_all add: after_close_last after_close_none quiet_def)
    with st show ?thesis by simp
  qed
  ultimately show ?thesis by (simp add: counter_inv_def)
qed

subsection \<open>The run of a task: resuming\<close>

lemma continues_refl: "continues s s"
  by (simp add: continues_def)

lemma continues_trans: "continues s s' \<Longrightarrow> continues s' s'' \<Longrightarrow> continues s s''"
  by (auto simp: continues_def)

lemma continues_prefix:
  "continues s s' \<Longrightarrow> prefix tr (trace s) \<Longrightarrow> prefix tr (trace s')"
  by (auto simp: continues_def)

lemma continues_trace: "continues s s' \<Longrightarrow> trace s = tr @ tr' \<Longrightarrow> prefix tr (trace s')"
  by (auto simp: continues_def dest: append_prefixD)

lemma continues_limiter_step: "continues s (limiter_step w s)"
  using limiter_step_trace [of w s] limiter_step_task [of w s]
  by (auto simp: continues_def)

lemma continues_close_and_return: "continues s (snd (close_and_return w s))"
  by (cases "completionChan (task s)")
     (simp_all add: close_and_return_open close_and_return_closed continues_def)

lemma continues_step:
  "prefix (trace s) (trace s1) \<Longrightarrow> isResumable (task s1) = isResumable (task s) \<Longrightarrow>
   totalFileSize (task s1) = totalFileSize (task s) \<Longrightarrow> continues s1 s' \<Longrightarrow> continues s s'"
  by (auto simp: continues_def)

lemma continues_copy_loop: "continues s (snd (copy_loop w rs s))"
proof (induction rs arbitrary: s)
  case Nil
  have "continues (limiter_step w s) (emit EvRead (limiter_step w s))"
    by (simp add: continues_def)
  with continues_limiter_step [of s w] show ?case
    by (auto intro: continues_trans)
next
  case (Cons r rs)
  let ?s1 = "emit EvRead (limiter_step w s)"
  have "continues (limiter_step w s) ?s1" by (simp add: continues_def)
  with continues_limiter_step [of s w] have c1: "continues s ?s1" by (rule continues_trans)
  show ?case
  proof (cases r)
    case (ReadPanics p)
    with c1 show ?thesis by (simp add: Let_def)
  next
    case (ReadReturns buf err)
    let ?s2 = "(emit (EvWrite buf) ?s1)\<lparr>writes := Suc (writes ?s1)\<rparr>"
    have "continues ?s1 ?s2" by (simp add: continues_def)
    with c1 have c2: "continues s ?s2" by (rule continues_trans)
    have ce: "continues s (set_error e ?s2)" for e
      by (rule continues_trans [OF c2]) (simp add: continues_def)
    show ?thesis
    proof (cases "fileWrite w (writes ?s1) buf")
      case (WritePanics p)
      with ReadReturns c1 c2 continues_trans [OF c1 Cons.IH] show ?thesis by (simp add: Let_def)
    next
      case (WriteReturns n err')
      let ?s3 = "set_bytesRead (wrap64 (bytesRead (task ?s2) + int (length buf))) ?s2"
      have "continues ?s2 ?s3" by (simp add: continues_def)
      with c2 have c3: "continues s ?s3" by (rule continues_trans)
      from ReadReturns WriteReturns c1 ce continues_trans [OF c1 Cons.IH]
        continues_trans [OF c3 Cons.IH]
      show ?thesis by (auto simp: Let_def)
    qed
  qed
qed

lemma transfer_continues:
  "continues (emit EvSpawnMonitor
       (upd (\<lambda>t. t\<lparr>totalFileSize := total_size r (isResumable (task s)) fi\<rparr>) s))
     (snd (transfer w name r fi s))"
proof -
  let ?s0 = "emit EvSpawnMonitor
       (upd (\<lambda>t. t\<lparr>totalFileSize := total_size r (isResumable (task s)) fi\<rparr>) s)"
  let ?s2 = "set_startTime w (emit EvSpawnMonitor
     (upd (\<lambda>t. t\<lparr>destination := Some name, source := Body r,
                          fileName := name,
                          totalFileSize := total_size r (isResumable (task s)) fi\<rparr>) s))"
  have "continues ?s0 ?s2" by (simp add: continues_def)
  then have c3: "continues ?s0 (snd (copy_loop w (Body r) ?s2))"
    using continues_copy_loop by (rule continues_trans)
  obtain ex s3 where c: "copy_loop w (Body r) ?s2 = (ex, s3)" by (cases "copy_loop w (Body r) ?s2")
  with c3 have c4: "continues ?s0 s3" by simp
  have "continues s3 (snd (close_and_return w (set_error e s3)))" for e
    by (rule continues_trans [OF _ continues_close_and_return]) (simp add: continues_def)
  with c4 have "continues ?s0 (snd (case ex of
           Break err \<Rightarrow> close_and_return w (set_error err s3)
         | LoopPanic p \<Rightarrow> (Panicked p, s3)
         | LoopBlocked \<Rightarrow> (Blocked, s3)))"
    by (cases ex) (auto intro: continues_trans)
  with c show ?thesis by (simp add: transfer_def Let_def)
qed

lemma transfer_trace: "prefix (trace s) (trace (snd (transfer w name r fi s)))"
  by (rule continues_trace [OF transfer_continues, where tr' = "[EvSpawnMonitor]"]) simp

lemma create_and_transfer_trace:
  "prefix (trace s @ [EvCreate name]) (trace (snd (create_and_transfer w name r fi s)))"
proof (cases "osCreate w name")
  case None
  with transfer_trace [of "emit (EvCreate name) s" w name r fi] show ?thesis
    by (simp add: create_and_transfer_def Let_def)
next
  case (Some e)
  have "prefix (trace s @ [EvCreate name]) (trace (snd (close_and_return w (emit (EvCreate name) s))))"
    by (rule continues_trace [OF continues_close_and_return, where tr' = "[]"]) simp
  with Some show ?thesis
    by (simp add: create_and_transfer_def Let_def)
qed

lemma check_response_trace:
  "check_response w res s = Inl x \<Longrightarrow> prefix (trace s) (trace (snd x))"
proof -
  assume a: "check_response w res s = Inl x"
  have "prefix (trace s) (trace (snd (close_and_return w (set_error e s))))" for e
    by (rule continues_trace [OF continues_close_and_return, where tr' = "[EvSetError e]"]) simp
  with a show ?thesis
    by (cases res) (auto simp: check_response_def split: option.splits if_splits)
qed

lemma resume_trace:
  assumes "Size info \<noteq> ContentLength r"
  shows "prefix (trace s @ [EvBodyClose, EvRequest (with_range req (Size info))])
           (trace (snd (resume w req name r info s)))"
proof -
  let ?req = "with_range req (Size info)"
  let ?s2 = "emit (EvRequest ?req) (emit EvBodyClose s)"
  let ?s3 = "emit (EvOpenFile name) ?s2"
  let ?s4 = "upd (\<lambda>t. t\<lparr>isResumable := True\<rparr>) (set_bytesRead (Size info) (emit EvSeekEnd ?s3))"
  have t2: "trace ?s2 = trace s @ [EvBodyClose, EvRequest ?req]" by simp
  show ?thesis
  proof (cases "check_response w (clientDo w 1 ?req) ?s2")
    case (Inl x)
    with assms check_response_trace [OF Inl] t2 show ?thesis
      by (simp add: resume_def Let_def)
  next
    case (Inr r')
    have a: "prefix (trace ?s2) (trace (snd (close_and_return w ?s3)))"
      by (rule continues_trace [OF continues_close_and_return, where tr' = "[EvOpenFile name]"])
         simp
    have "prefix (trace ?s4) (trace (snd (transfer w name r' (Some info) ?s4)))"
      by (rule transfer_trace)
    moreover have "trace ?s4 = trace ?s2 @ [EvOpenFile name, EvSeekEnd, EvSetBytesRead (Size info)]"
      by simp
    ultimately have b: "prefix (trace ?s2) (trace (snd (transfer w name r' (Some info) ?s4)))"
      by (metis append_prefixD)
    have "prefix (trace ?s2 @ [EvCreate name])
            (trace (snd (create_and_transfer w name r' (Some info) ?s2)))"
      by (rule create_and_transfer_trace)
    then have c: "prefix (trace ?s2) (trace (snd (create_and_transfer w name r' (Some info) ?s2)))"
      by (rule append_prefixD)
    from assms Inr a b c t2 show ?thesis
      by (cases "osOpenFile w name") (simp_all add: resume_def Let_def)
  qed
qed

lemma start_continues:
  "continues (snd (start_body w (init_exec dt))) (snd (start w dt))"
proof -
  obtain oc s where b: "start_body w (init_exec dt) = (oc, s)" by (cases "start_body w (init_exec dt)")
  have "continues s (snd (close_and_return w (set_error e s)))" for e
    by (rule continues_trans [OF _ continues_close_and_return]) (simp add: continues_def)
  with b show ?thesis
    by (cases oc) (simp_all add: start_def continues_refl)
qed

lemma header_Set_Get: "header_Get (header_Set k v h) k = v"
  by (induction h) (auto simp: header_Get_def)

lemma start_body_resume:
  assumes "newRequest_ok w (downloadURL dt)"
    and "clientDo w 0 (initial_request dt) = (Some r1, None)"
    and "StatusCode r1 = 200 \<or> StatusCode r1 = 206"
    and "osStat w (start_fileName w r1) = Inr info" and "\<not> IsDir info"
  shows "start_body w (init_exec dt) =
           resume w (initial_request dt) (start_fileName w r1) r1 info
             (emit (EvStat (start_fileName w r1)) (emit (EvRequest (initial_request dt)) (init_exec dt)))"
  using assms by (auto simp: start_body_def check_response_def init_exec_def Let_def)

text \<open>
  Claim C1, as amended. When the first response is accepted and the name stands for a
  file that is no directory and whose size \<open>S\<close> differs from the declared content
  length, the run starts with the first request, the \<^verbatim>\<open>Stat\<close>, the closing of the first
  body, and a second request which is the first one with the header
  \<^verbatim>\<open>Range: bytes=S-\<close>. When moreover the second response comes without an error and with
  the status 200 or 206, confirms ranges, and the file can be opened, the run goes on
  by opening the file, seeking to its end, seeding \<^verbatim>\<open>bytesRead\<close> with \<open>S\<close> and
  launching the speed sampler; the task ends as resumable, and its total size is the
  \<^verbatim>\<open>int64\<close> sum of \<open>S\<close> and the content length of the second response when that is
  positive (the sum itself when it fits an \<^verbatim>\<open>int64\<close>), and the content length of the
  second response as it is otherwise.
\<close>

theorem resume_negotiation:
  assumes "completionChan dt = Open"
    and "newRequest_ok w (downloadURL dt)"
    and "clientDo w 0 (initial_request dt) = (Some r1, None)"
    and "StatusCode r1 = 200 \<or> StatusCode r1 = 206"
    and "osStat w (start_fileName w r1) = Inr info" and "\<not> IsDir info"
    and "Size info \<noteq> ContentLength r1"
  shows "prefix [EvRequest (initial_request dt), EvStat (start_fileName w r1), EvBodyClose,
                 EvRequest (with_range (initial_request dt) (Size info))]
           (trace (snd (start w dt)))
    \<and> header_Get (reqHeader (with_range (initial_request dt) (Size info))) ''Range''
        = ''bytes='' @ itoa (Size info) @ ''-''
    \<and> (\<forall>r2. clientDo w 1 (with_range (initial_request dt) (Size info)) = (Some r2, None)
          \<and> (StatusCode r2 = 200 \<or> StatusCode r2 = 206) \<and> confirms_ranges r2
          \<and> osOpenFile w (start_fileName w r1) = None \<longrightarrow>
          prefix [EvRequest (initial_request dt), EvStat (start_fileName w r1), EvBodyClose,
                  EvRequest (with_range (initial_request dt) (Size info)),
                  EvOpenFile (start_fileName w r1), EvSeekEnd, EvSetBytesRead (Size info),
                  EvSpawnMonitor]
            (trace (snd (start w dt)))
          \<and> isResumable (task (snd (start w dt)))
          \<and> totalFileSize (task (snd (start w dt))) =
              (if ContentLength r2 > 0 then wrap64 (Size info + ContentLength r2)
               else ContentLength r2)
          \<and> (ContentLength r2 > 0 \<and> in_int64 (Size info + ContentLength r2) \<longrightarrow>
              totalFileSize (task (snd (start w dt))) = Size info + ContentLength r2))"
proof (intro conjI allI impI)
  let ?req = "initial_request dt"
  let ?name = "start_fileName w r1"
  let ?s2 = "emit (EvStat ?name) (emit (EvRequest ?req) (init_exec dt))"
  have sb: "start_body w (init_exec dt) = resume w ?req ?name r1 info ?s2"
    using assms(2-6) by (rule start_body_resume)
  have t2: "trace ?s2 = [EvRequest ?req, EvStat ?name]" by (simp add: init_exec_def)
  from resume_trace [OF assms(7), of ?s2 ?req w ?name] sb t2
  have "prefix [EvRequest ?req, EvStat ?name, EvBodyClose, EvRequest (with_range ?req (Size info))]
          (trace (snd (start_body w (init_exec dt))))" by simp
  with start_continues [of w dt]
  show "prefix [EvRequest ?req, EvStat ?name, EvBodyClose, EvRequest (with_range ?req (Size info))]
          (trace (snd (start w dt)))"
    by (auto simp: continues_def)
  show "header_Get (reqHeader (with_range ?req (Size info))) ''Range''
        = ''bytes='' @ itoa (Size info) @ ''-''"
    by (simp add: with_range_def header_Set_Get range_header_def)
  fix r2
  assume h: "clientDo w 1 (with_range ?req (Size info)) = (Some r2, None)
          \<and> (StatusCode r2 = 200 \<or> StatusCode r2 = 206) \<and> confirms_ranges r2
          \<and> osOpenFile w ?name = None"
  let ?s3 = "emit (EvOpenFile ?name) (emit (EvRequest (with_range ?req (Size info))) (emit EvBodyClose ?s2))"
  let ?s4 = "upd (\<lambda>t. t\<lparr>isResumable := True\<rparr>) (set_bytesRead (Size info) (emit EvSeekEnd ?s3))"
  let ?s5 = "emit EvSpawnMonitor
       (upd (\<lambda>t. t\<lparr>totalFileSize := total_size r2 (isResumable (task ?s4)) (Some info)\<rparr>) ?s4)"
  have rs: "resume w ?req ?name r1 info ?s2 = transfer w ?name r2 (Some info) ?s4"
    using h assms(7) by (auto simp: resume_def check_response_def Let_def)
  from transfer_continues [of r2 ?s4 "Some info" w ?name] rs sb
  have "continues ?s5 (snd (start_body w (init_exec dt)))" by simp
  then have c: "continues ?s5 (snd (start w dt))"
    using start_continues by (rule continues_trans)
  have t5: "trace ?s5 = [EvRequest ?req, EvStat ?name, EvBodyClose,
                  EvRequest (with_range ?req (Size info)),
                  EvOpenFile ?name, EvSeekEnd, EvSetBytesRead (Size info), EvSpawnMonitor]"
    by (simp add: init_exec_def)
  from c t5
  show "prefix [EvRequest ?req, EvStat ?name, EvBodyClose,
                  EvRequest (with_range ?req (Size info)),
                  EvOpenFile ?name, EvSeekEnd, EvSetBytesRead (Size info), EvSpawnMonitor]
            (trace (snd (start w dt)))"
    by (simp add: continues_def)
  from c show "isResumable (task (snd (start w dt)))"
    by (simp add: continues_def)
  from c show tot: "totalFileSize (task (snd (start w dt))) =
              (if ContentLength r2 > 0 then wrap64 (Size info + ContentLength r2)
               else ContentLength r2)"
    by (simp add: continues_def total_size_def add.commute)
  assume "ContentLength r2 > 0 \<and> in_int64 (Size info + ContentLength r2)"
  with tot show "totalFileSize (task (snd (start w dt))) = Size info + ContentLength r2"
    by (simp add: wrap64_id)
qed

subsection \<open>The run of a task: the ways out before the transfer\<close>

lemma without_sleeps_limiter_step:
  "without_sleeps (trace (limiter_step w s)) = without_sleeps (trace s)"
  using limiter_step_trace [of w s] by (auto simp: without_sleeps_def)

lemma limiter_step_fields [simp]:
  "completionChan (task (limiter_step w s)) = completionChan (task s)"
  "error (task (limiter_step w s)) = error (task s)"
  using limiter_step_task [of w s] by auto

lemma first_read_fails:
  assumes "completionChan (task s) = Open" and "Body r = ReadReturns [] (Some e) # rs"
  shows "fst (transfer w name r fi s) = Returned
    \<and> error (task (snd (transfer w name r fi s))) = Some e
    \<and> bytesRead (task (snd (transfer w name r fi s))) = bytesRead (task s)
    \<and> without_sleeps (trace (snd (transfer w name r fi s))) =
         without_sleeps (trace s) @ [EvSpawnMonitor, EvRead, EvSetError (Some e), EvClose]"
  using assms
  by (simp add: transfer_def Let_def close_and_return_open without_sleeps_def
        without_sleeps_limiter_step [unfolded without_sleeps_def])

text \<open>
  Claim C7, as amended. When the first call of \<^verbatim>\<open>client.Do\<close> returns an error, no
  response, or a response whose status is neither 200 nor 206, the run returns, the
  error of the task is set, and the run consists of the request, the assignment of the
  error and the closing of the channel: no file is looked up, created, opened or
  written and the body is not read. The error carries the status of the response; for
  a missing response it is the nil dereference that the deferred function recovered.
  When the response is accepted, no file of the name exists, the file is created and
  the first read of the body returns no byte and an error, the run returns with that
  error and the counter as it was, and consists, apart from the sleeps of the limiter,
  of the request, the \<^verbatim>\<open>Stat\<close>, the creation of the file, the launch of the speed
  sampler, the read, the assignment of the error and the closing of the channel: nothing
  is written, and nothing is created after the error.
\<close>

theorem initial_request_refused:
  assumes "completionChan dt = Open" and "newRequest_ok w (downloadURL dt)"
    and "clientDo w 0 (initial_request dt) = (resp, err)"
  shows "(err \<noteq> None \<or> resp = None
          \<or> (\<exists>r. resp = Some r \<and> StatusCode r \<noteq> 200 \<and> StatusCode r \<noteq> 206) \<longrightarrow>
          fst (start w dt) = Returned
          \<and> (\<exists>e. error (task (snd (start w dt))) = Some e
                \<and> trace (snd (start w dt)) =
                     [EvRequest (initial_request dt), EvSetError (Some e), EvClose]
                \<and> (case resp of
                      None \<Rightarrow> e = RuntimeError ''invalid memory address or nil pointer dereference''
                    | Some r \<Rightarrow>
                        e = ErrorString
                              (''HTTP request failed with status: '' @ itoa (StatusCode r)))))
    \<and> (\<forall>r name x e rs.
          resp = Some r \<and> err = None \<and> (StatusCode r = 200 \<or> StatusCode r = 206)
          \<and> name = start_fileName w r \<and> osStat w name = Inl x \<and> osCreate w name = None
          \<and> Body r = ReadReturns [] (Some e) # rs \<longrightarrow>
          fst (start w dt) = Returned
          \<and> error (task (snd (start w dt))) = Some e
          \<and> bytesRead (task (snd (start w dt))) = bytesRead dt
          \<and> without_sleeps (trace (snd (start w dt))) =
               [EvRequest (initial_request dt), EvStat name, EvCreate name, EvSpawnMonitor,
                EvRead, EvSetError (Some e), EvClose])"
proof (intro conjI impI allI)
  assume a: "err \<noteq> None \<or> resp = None
          \<or> (\<exists>r. resp = Some r \<and> StatusCode r \<noteq> 200 \<and> StatusCode r \<noteq> 206)"
  have "fst (start w dt) = Returned
          \<and> (\<exists>e. error (task (snd (start w dt))) = Some e
                \<and> trace (snd (start w dt)) =
                     [EvRequest (initial_request dt), EvSetError (Some e), EvClose]
                \<and> (case resp of
                      None \<Rightarrow> e = RuntimeError ''invalid memory address or nil pointer dereference''
                    | Some r \<Rightarrow>
                        e = ErrorString
                              (''HTTP request failed with status: '' @ itoa (StatusCode r))))"
  proof (cases resp)
    case None
    with assms show ?thesis
      by (simp add: start_def start_body_def check_response_def init_exec_def Let_def
            close_and_return_open nil_dereference_def)
  next
    case (Some r)
    with assms a show ?thesis
      by (auto simp: start_def start_body_def check_response_def init_exec_def Let_def
            close_and_return_open)
  qed
  then show "fst (start w dt) = Returned"
    and "\<exists>e. error (task (snd (start w dt))) = Some e
                \<and> trace (snd (start w dt)) =
                     [EvRequest (initial_request dt), EvSetError (Some e), EvClose]
                \<and> (case resp of
                      None \<Rightarrow> e = RuntimeError ''invalid memory address or nil pointer dereference''
                    | Some r \<Rightarrow>
                        e = ErrorString
                              (''HTTP request failed with status: '' @ itoa (StatusCode r)))"
    by blast+
next
  fix r name x e rs
  assume b: "resp = Some r \<and> err = None \<and> (StatusCode r = 200 \<or> StatusCode r = 206)
          \<and> name = start_fileName w r \<and> osStat w name = Inl x \<and> osCreate w name = None
          \<and> Body r = ReadReturns [] (Some e) # rs"
  let ?s = "emit (EvCreate name) (emit (EvStat name)
              (emit (EvRequest (initial_request dt)) (init_exec dt)))"
  have sb: "start_body w (init_exec dt) = transfer w name r None ?s"
    using assms b
    by (auto simp: start_body_def check_response_def init_exec_def Let_def create_and_transfer_def)
  have o: "completionChan (task ?s) = Open" using assms(1) by (simp add: init_exec_def)
  from b have bd: "Body r = ReadReturns [] (Some e) # rs" by simp
  note f = first_read_fails [OF o bd, of w name None]
  obtain oc s' where t: "transfer w name r None ?s = (oc, s')" by (cases "transfer w name r None ?s")
  with f have oc: "oc = Returned" by simp
  with sb t have st: "start w dt = (Returned, s')" by (simp add: start_def)
  from f t st show "fst (start w dt) = Returned"
    and "error (task (snd (start w dt))) = Some e"
    and "bytesRead (task (snd (start w dt))) = bytesRead dt"
    and "without_sleeps (trace (snd (start w dt))) =
               [EvRequest (initial_request dt), EvStat name, EvCreate name, EvSpawnMonitor,
                EvRead, EvSetError (Some e), EvClose]"
    by (simp_all add: init_exec_def without_sleeps_def)
qed

text \<open>
  Claim C3. When the first response is accepted and the name stands for a file that
  is no directory and whose size is the declared content length, the run returns with
  the error \<^verbatim>\<open>file already downloaded\<close>, and consists of the request, the \<^verbatim>\<open>Stat\<close>, the
  closing of the body, the assignment of the error and the closing of the channel: the
  body is not read and no file is created, opened or written.
\<close>

theorem already_downloaded:
  assumes "completionChan dt = Open" and "newRequest_ok w (downloadURL dt)"
    and "clientDo w 0 (initial_request dt) = (Some r, None)"
    and "StatusCode r = 200 \<or> StatusCode r = 206"
    and "osStat w (start_fileName w r) = Inr info" and "\<not> IsDir info"
    and "Size info = ContentLength r"
  shows "fst (start w dt) = Returned
    \<and> error (task (snd (start w dt))) = Some (ErrorString ''file already downloaded'')
    \<and> trace (snd (start w dt)) =
         [EvRequest (initial_request dt), EvStat (start_fileName w r), EvBodyClose,
          EvSetError (Some (ErrorString ''file already downloaded'')), EvClose]"
proof -
  have "start_body w (init_exec dt) =
           resume w (initial_request dt) (start_fileName w r) r info
             (emit (EvStat (start_fileName w r)) (emit (EvRequest (initial_request dt)) (init_exec dt)))"
    using assms(2-6) by (rule start_body_resume)
  with assms(1,7) show ?thesis
    by (simp add: start_def resume_def init_exec_def close_and_return_open)
qed

subsection \<open>The scenarios\<close>

lemma hello_task_eq:
  "hello_task = \<lparr>completionChan = Open, source = [], destination = None, bytesPerSecond = Finite 0,
         error = None, startTime = 0, endTime = 0, bytesRead = 0, totalFileSize = 0,
         fileName = [],
         rateLimiter = \<lparr>lastReadBytes = 0, lastCheckTime = 0, limit = - 1000\<rparr>,
         downloadURL = ''http://example.org/pub/hello.txt'', isResumable = False, headers = []\<rparr>"
  by (simp add: hello_task_def newDownloadTask_def extractRateLimit_def quiet_world_def wrap64_def)

lemma hello_task_simps:
  "completionChan hello_task = Open" "bytesRead hello_task = 0" "error hello_task = None"
  "isResumable hello_task = False" "limit (rateLimiter hello_task) = - 1000"
  "downloadURL hello_task = ''http://example.org/pub/hello.txt''"
  "initial_request hello_task = \<lparr>reqURL = ''http://example.org/pub/hello.txt'', reqHeader = []\<rparr>"
  by (simp_all add: hello_task_eq initial_request_def)

lemma hello_name: "start_fileName w (r\<lparr>Header := [], URLPath := ''/pub/hello.txt''\<rparr>) = ''hello.txt''"
  by (simp add: start_fileName_def extractFilename_def derivedName_def header_Get_def
        strings_HasSuffix_def suffix_def path_Clean_def filepath_Base_def)

lemma hello_names:
  "start_fileName w resp_hello = ''hello.txt''" "start_fileName w resp_full = ''hello.txt''"
  "start_fileName w resp_panics = ''hello.txt''" "start_fileName w resp_reset = ''hello.txt''"
  using hello_name [of w resp_hello] hello_name [of w resp_full] hello_name [of w resp_panics]
    hello_name [of w resp_reset]
  by (simp_all add: resp_hello_def resp_full_def resp_panics_def resp_reset_def)

lemma floor_half: "\<lfloor>1 / 2 :: rat\<rfloor> = 0"
  by (rule floor_unique) simp_all

lemma quiet_world_simps:
  "newRequest_ok quiet_world url" "clientDo quiet_world k req = (Some resp_hello, None)"
  "osStat quiet_world name = Inl (SysError ''no such file or directory'')"
  "osOpenFile quiet_world name = None" "osCreate quiet_world name = None"
  "fileWrite quiet_world k buf = WriteReturns (int (length buf)) None"
  "clock quiet_world j = int j * Second"
  by (simp_all add: quiet_world_def)

lemma read_only_world_simps:
  "newRequest_ok read_only_world url" "clientDo read_only_world k req = (Some resp_hello, None)"
  "osStat read_only_world name = Inl (SysError ''no such file or directory'')"
  "osCreate read_only_world name = Some (SysError ''permission denied'')"
  "clock read_only_world j = int j * Second"
  by (simp_all add: read_only_world_def quiet_world_def)

lemma disk_full_world_simps:
  "newRequest_ok disk_full_world url" "clientDo disk_full_world k req = (Some resp_hello, None)"
  "osStat disk_full_world name = Inl (SysError ''no such file or directory'')"
  "osCreate disk_full_world name = None"
  "fileWrite disk_full_world k buf = WriteReturns 0 (Some (SysError ''no space left on device''))"
  "clock disk_full_world j = int j * Second"
  by (simp_all add: disk_full_world_def quiet_world_def)

lemma partial_world_simps:
  "newRequest_ok (partial_world r2) url"
  "clientDo (partial_world r2) 0 req = (Some resp_full, None)"
  "clientDo (partial_world r2) (Suc 0) req = (Some r2, None)"
  "osStat (partial_world r2) name = Inr partial_file"
  "osOpenFile (partial_world r2) name = None" "osCreate (partial_world r2) name = None"
  "fileWrite (partial_world r2) k buf = WriteReturns (int (length buf)) None"
  "clock (partial_world r2) j = int j * Second"
  by (simp_all add: partial_world_def quiet_world_def)

lemma locked_world_simps:
  "newRequest_ok locked_world url"
  "clientDo locked_world 0 req = (Some resp_full, None)"
  "clientDo locked_world (Suc 0) req = (Some resp_rest, None)"
  "osStat locked_world name = Inr partial_file"
  "osOpenFile locked_world name = Some (SysError ''permission denied'')"
  "clock locked_world j = int j * Second"
  by (simp_all add: locked_world_def partial_world_def quiet_world_def)

lemma complete_world_simps:
  "newRequest_ok complete_world url" "clientDo complete_world k req = (Some resp_hello, None)"
  "osStat complete_world name = Inr \<lparr>IsDir = False, Size = 5\<rparr>"
  "clock complete_world j = int j * Second"
  by (simp_all add: complete_world_def quiet_world_def)

lemma not_found_world_simps:
  "newRequest_ok not_found_world url"
  "clientDo not_found_world k req = (Some (resp_hello\<lparr>StatusCode := 404\<rparr>), None)"
  "clock not_found_world j = int j * Second"
  by (simp_all add: not_found_world_def quiet_world_def)

lemma reset_world_simps:
  "newRequest_ok reset_world url" "clientDo reset_world k req = (Some resp_reset, None)"
  "osStat reset_world name = Inl (SysError ''no such file or directory'')"
  "osCreate reset_world name = None"
  "clock reset_world j = int j * Second"
  "StatusCode resp_reset = 200" "ContentLength resp_reset = 5"
  "Body resp_reset = [ReadReturns [] (Some (SysError ''connection reset by peer''))]"
  by (simp_all add: reset_world_def quiet_world_def resp_reset_def resp_hello_def)

lemma panic_world_simps:
  "newRequest_ok panic_world url" "clientDo panic_world k req = (Some resp_panics, None)"
  "osStat panic_world name = Inl (SysError ''no such file or directory'')"
  "osCreate panic_world name = None"
  "fileWrite panic_world k buf = WriteReturns (int (length buf)) None"
  "clock panic_world j = int j * Second"
  by (simp_all add: panic_world_def quiet_world_def)

lemma resp_simps:
  "StatusCode resp_hello = 200" "ContentLength resp_hello = 5"
  "Body resp_hello = [ReadReturns ''hello'' None, ReadReturns [] (Some EOF)]"
  "StatusCode resp_full = 200" "ContentLength resp_full = 1000"
  "StatusCode resp_rest = 206" "ContentLength resp_rest = 900"
  "Body resp_rest = [ReadReturns ''0123456789'' None, ReadReturns [] (Some EOF)]"
  "Body resp_full = [ReadReturns ''hello'' None, ReadReturns [] (Some EOF)]"
  "StatusCode resp_rest_unknown_length = 206" "ContentLength resp_rest_unknown_length = - 1"
  "Body resp_rest_unknown_length = [ReadReturns ''0123456789'' None, ReadReturns [] (Some EOF)]"
  "StatusCode resp_unsatisfiable = 416"
  "StatusCode resp_panics = 200" "ContentLength resp_panics = 5"
  "Body resp_panics = [ReadReturns ''he'' None, ReadPanics (PanicString ''unexpected fault'')]"
  "confirms_ranges resp_rest" "confirms_ranges resp_rest_unknown_length"
  "confirms_ranges resp_unsatisfiable"
  "IsDir partial_file = False" "Size partial_file = 100"
  by (simp_all add: resp_hello_def resp_full_def resp_rest_def resp_rest_unknown_length_def
        resp_unsatisfiable_def resp_panics_def confirms_ranges_def header_Get_def partial_file_def)

lemma itoa_simps: "itoa 100 = ''100''" "itoa 404 = ''404''" "itoa 416 = ''416''"
  by (simp_all add: itoa_def digits.simps digit_char_def)

lemma limiter_step_off: "\<not> 0 < limit (rateLimiter (task s)) \<Longrightarrow> limiter_step w s = s"
  by (simp add: limiter_step_def)

lemma exec_writes_simps [simp]:
  "trace (s\<lparr>writes := n\<rparr>) = trace s" "task (s\<lparr>writes := n\<rparr>) = task s"
  by simp_all

lemmas run_defs = start_def start_body_def check_response_def create_and_transfer_def
  transfer_def resume_def limiter_step_off init_exec_def close_and_return_open Let_def
  bufferSize_def total_size_def

text \<open>
  Claim C8 fails on the code. With a total of 1000 bytes, 10 bytes read and a
  throughput of half a byte per second, \<^verbatim>\<open>getETAString\<close> passes its test for 0 and
  then divides by \<^verbatim>\<open>int64(0.5)\<close>, which is 0: it panics instead of returning
  \<^verbatim>\<open>N/A\<close>. With an unknown total (\<open>- 1\<close>) and a throughput of 100 bytes per second
  it passes the same test and formats \<open>(- 1 - 10) / 100\<close>.
\<close>

theorem getETAString_panics:
  "totalFileSize slow_task = 1000 \<and> bytesRead slow_task = 10 \<and> bytesPerSecond slow_task = Finite (1 / 2)
   \<and> getETAString slow_task = Inl divide_by_zero
   \<and> totalFileSize unknown_total_task = - 1 \<and> bytesPerSecond unknown_total_task = Finite 100
   \<and> getETAString unknown_total_task = Inr '' 0s''"
  by (simp add: getETAString_def getBytesRead_def slow_task_def unknown_total_task_def hello_task_eq
        int64_of_float_def int64_div_def floor_half wrap64_def go_quot_def durationToString.simps
        in_int64_def minInt64_def maxInt64_def Let_def
        fmt_2d_def itoa_def digits.simps digit_char_def)

text \<open>
  Claim C9 fails on the code. When \<^verbatim>\<open>os.Create\<close> fails, the run closes the channel
  and returns, and does nothing else, but the error of \<^verbatim>\<open>os.Create\<close> is not stored:
  the error of the task is still nil. The same holds when \<^verbatim>\<open>os.OpenFile\<close> fails on
  the way to resuming a file of 100 bytes.
\<close>

theorem create_error_dropped:
  "osCreate read_only_world ''hello.txt'' = Some (SysError ''permission denied'')
   \<and> fst (start read_only_world hello_task) = Returned
   \<and> error (task (snd (start read_only_world hello_task))) = None
   \<and> trace (snd (start read_only_world hello_task)) =
        [EvRequest \<lparr>reqURL = ''http://example.org/pub/hello.txt'', reqHeader = []\<rparr>,
         EvStat ''hello.txt'', EvCreate ''hello.txt'', EvClose]
   \<and> osOpenFile locked_world ''hello.txt'' = Some (SysError ''permission denied'')
   \<and> fst (start locked_world hello_task) = Returned
   \<and> error (task (snd (start locked_world hello_task))) = None
   \<and> trace (snd (start locked_world hello_task)) =
        [EvRequest \<lparr>reqURL = ''http://example.org/pub/hello.txt'', reqHeader = []\<rparr>,
         EvStat ''hello.txt'', EvBodyClose,
         EvRequest \<lparr>reqURL = ''http://example.org/pub/hello.txt'',
                    reqHeader = [(''Range'', ''bytes=100-'')]\<rparr>,
         EvOpenFile ''hello.txt'', EvClose]"
  by (simp add: run_defs hello_task_simps hello_names read_only_world_simps locked_world_simps
        resp_simps with_range_def range_header_def itoa_simps)

text \<open>
  Claim C5 fails on the code. When the write of the first chunk fails, the loop
  assigns \<^verbatim>\<open>io.ErrShortWrite\<close> to the error of the task and breaks, and the statement
  after the loop assigns the error of the write over it: the task ends with the error
  of the operating system, not with \<^verbatim>\<open>io.ErrShortWrite\<close>.
\<close>

theorem short_write_overwritten:
  "fst (start disk_full_world hello_task) = Returned
   \<and> error (task (snd (start disk_full_world hello_task))) = Some (SysError ''no space left on device'')
   \<and> trace (snd (start disk_full_world hello_task)) =
        [EvRequest \<lparr>reqURL = ''http://example.org/pub/hello.txt'', reqHeader = []\<rparr>,
         EvStat ''hello.txt'', EvCreate ''hello.txt'', EvSpawnMonitor, EvRead, EvWrite ''hello'',
         EvSetError (Some ErrShortWrite), EvSetError (Some (SysError ''no space left on device'')),
         EvClose]"
  by (simp add: run_defs hello_task_simps hello_names disk_full_world_simps resp_simps)

lemma partial_world_clientDo:
  "clientDo (partial_world r2) k req = (if k = 0 then (Some resp_full, None) else (Some r2, None))"
  by (simp add: partial_world_def)

text \<open>A file of 5 bytes and a response that declares 5 bytes.\<close>

theorem already_downloaded_witness:
  "completionChan hello_task = Open \<and> newRequest_ok complete_world (downloadURL hello_task)
   \<and> clientDo complete_world 0 (initial_request hello_task) = (Some resp_hello, None)
   \<and> StatusCode resp_hello = 200
   \<and> osStat complete_world (start_fileName complete_world resp_hello) = Inr \<lparr>IsDir = False, Size = 5\<rparr>
   \<and> ContentLength resp_hello = 5
   \<and> fst (start complete_world hello_task) = Returned
   \<and> error (task (snd (start complete_world hello_task))) = Some (ErrorString ''file already downloaded'')
   \<and> trace (snd (start complete_world hello_task)) =
        [EvRequest \<lparr>reqURL = ''http://example.org/pub/hello.txt'', reqHeader = []\<rparr>,
         EvStat ''hello.txt'', EvBodyClose,
         EvSetError (Some (ErrorString ''file already downloaded'')), EvClose]"
  using already_downloaded [of hello_task complete_world resp_hello "\<lparr>IsDir = False, Size = 5\<rparr>"]
  by (simp add: hello_task_simps complete_world_simps resp_simps hello_names)

text \<open>
  A server that answers 404; and a server that answers 200 and whose connection is
  reset before the first byte of the body.
\<close>

theorem initial_request_refused_witness:
  "completionChan hello_task = Open \<and> newRequest_ok not_found_world (downloadURL hello_task)
   \<and> clientDo not_found_world 0 (initial_request hello_task)
       = (Some (resp_hello\<lparr>StatusCode := 404\<rparr>), None)
   \<and> fst (start not_found_world hello_task) = Returned
   \<and> error (task (snd (start not_found_world hello_task)))
       = Some (ErrorString ''HTTP request failed with status: 404'')
   \<and> trace (snd (start not_found_world hello_task)) =
        [EvRequest \<lparr>reqURL = ''http://example.org/pub/hello.txt'', reqHeader = []\<rparr>,
         EvSetError (Some (ErrorString ''HTTP request failed with status: 404'')), EvClose]
   \<and> clientDo reset_world 0 (initial_request hello_task) = (Some resp_reset, None)
   \<and> StatusCode resp_reset = 200
   \<and> osStat reset_world ''hello.txt'' = Inl (SysError ''no such file or directory'')
   \<and> osCreate reset_world ''hello.txt'' = None
   \<and> Body resp_reset = [ReadReturns [] (Some (SysError ''connection reset by peer''))]
   \<and> fst (start reset_world hello_task) = Returned
   \<and> error (task (snd (start reset_world hello_task)))
       = Some (SysError ''connection reset by peer'')
   \<and> without_sleeps (trace (snd (start reset_world hello_task))) =
        [EvRequest \<lparr>reqURL = ''http://example.org/pub/hello.txt'', reqHeader = []\<rparr>,
         EvStat ''hello.txt'', EvCreate ''hello.txt'', EvSpawnMonitor, EvRead,
         EvSetError (Some (SysError ''connection reset by peer'')), EvClose]"
  using initial_request_refused [of hello_task not_found_world
          "Some (resp_hello\<lparr>StatusCode := 404\<rparr>)" None]
        initial_request_refused [of hello_task reset_world "Some resp_reset" None]
  by (auto simp: hello_task_simps not_found_world_simps reset_world_simps hello_names itoa_simps)

text \<open>
  Claim C7 as stated fails. The server answers 200 and the connection is reset before
  the first byte of the body arrives: this network error occurs before a byte is
  written, and the task ends with it, but by then it has created the file.
\<close>

theorem read_error_after_create:
  "clientDo reset_world 0 (initial_request hello_task) = (Some resp_reset, None)
   \<and> StatusCode resp_reset = 200
   \<and> Body resp_reset = [ReadReturns [] (Some (SysError ''connection reset by peer''))]
   \<and> fst (start reset_world hello_task) = Returned
   \<and> error (task (snd (start reset_world hello_task)))
       = Some (SysError ''connection reset by peer'')
   \<and> bytesRead (task (snd (start reset_world hello_task))) = 0
   \<and> trace (snd (start reset_world hello_task)) =
        [EvRequest \<lparr>reqURL = ''http://example.org/pub/hello.txt'', reqHeader = []\<rparr>,
         EvStat ''hello.txt'', EvCreate ''hello.txt'', EvSpawnMonitor, EvRead,
         EvSetError (Some (SysError ''connection reset by peer'')), EvClose]"
  by (simp add: run_defs hello_task_simps hello_names reset_world_simps)

text \<open>
  A file of 100 bytes of a resource of 1000 bytes, and a server that answers the range
  request with 206, a \<^verbatim>\<open>Content-Range\<close> and the content length 900: the total is 1000.
\<close>

theorem resume_negotiation_witness:
  "completionChan hello_task = Open
   \<and> newRequest_ok (partial_world resp_rest) (downloadURL hello_task)
   \<and> clientDo (partial_world resp_rest) 0 (initial_request hello_task) = (Some resp_full, None)
   \<and> StatusCode resp_full = 200
   \<and> osStat (partial_world resp_rest) (start_fileName (partial_world resp_rest) resp_full)
       = Inr partial_file
   \<and> \<not> IsDir partial_file \<and> Size partial_file = 100 \<and> ContentLength resp_full = 1000
   \<and> clientDo (partial_world resp_rest) 1 (with_range (initial_request hello_task) 100)
       = (Some resp_rest, None)
   \<and> StatusCode resp_rest = 206 \<and> confirms_ranges resp_rest \<and> ContentLength resp_rest = 900
   \<and> osOpenFile (partial_world resp_rest) ''hello.txt'' = None
   \<and> prefix [EvRequest \<lparr>reqURL = ''http://example.org/pub/hello.txt'', reqHeader = []\<rparr>,
              EvStat ''hello.txt'', EvBodyClose,
              EvRequest \<lparr>reqURL = ''http://example.org/pub/hello.txt'',
                         reqHeader = [(''Range'', ''bytes=100-'')]\<rparr>,
              EvOpenFile ''hello.txt'', EvSeekEnd, EvSetBytesRead 100, EvSpawnMonitor]
        (trace (snd (start (partial_world resp_rest) hello_task)))
   \<and> isResumable (task (snd (start (partial_world resp_rest) hello_task)))
   \<and> totalFileSize (task (snd (start (partial_world resp_rest) hello_task))) = 1000"
  using resume_negotiation [of hello_task "partial_world resp_rest" resp_full partial_file]
  by (simp add: hello_task_simps partial_world_simps resp_simps hello_names with_range_def
        range_header_def itoa_simps in_int64_def minInt64_def maxInt64_def)

text \<open>
  Claim C1 as stated fails. With the same file of 100 bytes, a second response that
  confirms ranges but declares no content length (\<open>- 1\<close>) leaves the total size at
  \<open>- 1\<close>, which is not \<open>100 + (- 1)\<close>; and a second response with the status 416,
  which carries a \<^verbatim>\<open>Content-Range\<close>, ends the task with an error: the file is not
  reopened, the counter is not seeded and the task is not marked resumable.
\<close>

theorem total_size_not_the_sum:
  "osStat (partial_world resp_rest_unknown_length) ''hello.txt'' = Inr partial_file
   \<and> \<not> IsDir partial_file \<and> Size partial_file = 100 \<and> ContentLength resp_full = 1000
   \<and> confirms_ranges resp_rest_unknown_length
   \<and> ContentLength resp_rest_unknown_length = - 1
   \<and> isResumable (task (snd (start (partial_world resp_rest_unknown_length) hello_task)))
   \<and> totalFileSize (task (snd (start (partial_world resp_rest_unknown_length) hello_task))) = - 1
   \<and> confirms_ranges resp_unsatisfiable
   \<and> trace (snd (start (partial_world resp_unsatisfiable) hello_task)) =
        [EvRequest \<lparr>reqURL = ''http://example.org/pub/hello.txt'', reqHeader = []\<rparr>,
         EvStat ''hello.txt'', EvBodyClose,
         EvRequest \<lparr>reqURL = ''http://example.org/pub/hello.txt'',
                    reqHeader = [(''Range'', ''bytes=100-'')]\<rparr>,
         EvSetError (Some (ErrorString ''HTTP request failed with status: 416'')), EvClose]
   \<and> \<not> isResumable (task (snd (start (partial_world resp_unsatisfiable) hello_task)))
   \<and> bytesRead (task (snd (start (partial_world resp_unsatisfiable) hello_task))) = 0"
  by (simp add: run_defs hello_task_simps partial_world_simps resp_simps hello_names with_range_def
        range_header_def itoa_simps wrap64_def)

text \<open>
  A body whose second read panics with a string: the panic is raised in the loop, the
  run returns, the string is the error of the task and the channel was closed once. A
  refused connection: the nil response panics where its status is read, and the
  run-time error is the error of the task. A read that panics with another value:
  the error of the task is \<^verbatim>\<open>unknown panic occurred\<close>.
\<close>

theorem recovery_barrier_witness:
  "completionChan hello_task = Open
   \<and> clientDo panic_world 0 (initial_request hello_task) = (Some resp_panics, None)
   \<and> body_ends (Body resp_panics)
   \<and> fst (start_body panic_world (init_exec hello_task)) = Panicked (PanicString ''unexpected fault'')
   \<and> fst (start panic_world hello_task) = Returned
   \<and> error (task (snd (start panic_world hello_task))) = Some (ErrorString ''unexpected fault'')
   \<and> closes (trace (snd (start panic_world hello_task))) = 1
   \<and> last (trace (snd (start panic_world hello_task))) = EvClose
   \<and> fst (start_body refused_world (init_exec hello_task))
       = Panicked (PanicError (RuntimeError ''invalid memory address or nil pointer dereference''))
   \<and> fst (start refused_world hello_task) = Returned
   \<and> error (task (snd (start refused_world hello_task)))
       = Some (RuntimeError ''invalid memory address or nil pointer dereference'')
   \<and> fst (start_body odd_panic_world (init_exec hello_task)) = Panicked PanicOther
   \<and> fst (start odd_panic_world hello_task) = Returned
   \<and> error (task (snd (start odd_panic_world hello_task)))
       = Some (ErrorString ''unknown panic occurred'')"
proof -
  have o: "completionChan hello_task = Open" by (simp add: hello_task_simps)
  have e: "\<forall>k req r e. clientDo panic_world k req = (Some r, e) \<longrightarrow> body_ends (Body r)"
    by (auto simp: panic_world_simps resp_simps body_ends_def)
  have f: "fst (start_body panic_world (init_exec hello_task)) = Panicked (PanicString ''unexpected fault'')"
    by (simp add: run_defs hello_task_simps panic_world_simps resp_simps hello_names wrap64_def)
  then have b: "start_body panic_world (init_exec hello_task)
      = (Panicked (PanicString ''unexpected fault''), snd (start_body panic_world (init_exec hello_task)))"
    by (metis prod.collapse)
  from recovery_barrier [OF o, of panic_world] e b
  have 1: "fst (start panic_world hello_task) = Returned
    \<and> error (task (snd (start panic_world hello_task))) = Some (ErrorString ''unexpected fault'')
    \<and> closes (trace (snd (start panic_world hello_task))) = 1
    \<and> last (trace (snd (start panic_world hello_task))) = EvClose"
    by blast
  have 2: "clientDo panic_world 0 (initial_request hello_task) = (Some resp_panics, None)"
    and 3: "body_ends (Body resp_panics)"
    by (simp_all add: panic_world_simps resp_simps body_ends_def)
  have g: "fst (start_body refused_world (init_exec hello_task))
      = Panicked (PanicError (RuntimeError ''invalid memory address or nil pointer dereference''))"
    by (simp add: run_defs hello_task_simps refused_world_def quiet_world_def nil_dereference_def)
  then have "start_body refused_world (init_exec hello_task)
      = (Panicked (PanicError (RuntimeError ''invalid memory address or nil pointer dereference'')),
         snd (start_body refused_world (init_exec hello_task)))"
    by (metis prod.collapse)
  with recovery_barrier [OF o, of refused_world]
  have 4: "fst (start refused_world hello_task) = Returned
    \<and> error (task (snd (start refused_world hello_task)))
       = Some (RuntimeError ''invalid memory address or nil pointer dereference'')"
    by blast
  have n: "start_fileName odd_panic_world resp_panics_other = ''hello.txt''"
    using hello_name [of odd_panic_world resp_panics_other]
    by (simp add: resp_panics_other_def resp_hello_def)
  have r: "StatusCode resp_panics_other = 200" "Body resp_panics_other = [ReadPanics PanicOther]"
    by (simp_all add: resp_panics_other_def resp_hello_def)
  have ow: "newRequest_ok odd_panic_world url"
    "clientDo odd_panic_world k req = (Some resp_panics_other, None)"
    "osStat odd_panic_world name = Inl (SysError ''no such file or directory'')"
    "osCreate odd_panic_world name = None" for url k req name
    by (simp_all add: odd_panic_world_def quiet_world_def)
  have h: "fst (start_body odd_panic_world (init_exec hello_task)) = Panicked PanicOther"
    by (simp add: run_defs hello_task_simps n r ow)
  then have "start_body odd_panic_world (init_exec hello_task)
      = (Panicked PanicOther, snd (start_body odd_panic_world (init_exec hello_task)))"
    by (metis prod.collapse)
  with recovery_barrier [OF o, of odd_panic_world]
  have 5: "fst (start odd_panic_world hello_task) = Returned
    \<and> error (task (snd (start odd_panic_world hello_task)))
       = Some (ErrorString ''unknown panic occurred'')"
    by blast
  from o 1 2 3 f g 4 h 5 show ?thesis by blast
qed

text \<open>
  A file of 100 bytes is resumed and 10 more bytes arrive: the counter is seeded with
  100 and ends as 110.
\<close>

theorem bytesRead_monotonic_witness:
  "completionChan hello_task = Open \<and> bytesRead hello_task = 0
   \<and> osStat (partial_world resp_rest) ''hello.txt'' = Inr partial_file \<and> Size partial_file = 100
   \<and> body_bytes (Body resp_full) = 5 \<and> body_bytes (Body resp_rest) = 10
   \<and> bytesRead_values (trace (snd (start (partial_world resp_rest) hello_task))) = [100, 110]
   \<and> sorted (0 # bytesRead_values (trace (snd (start (partial_world resp_rest) hello_task))))
   \<and> bytesRead (task (snd (start (partial_world resp_rest) hello_task))) = 110
   \<and> assignments_justified (partial_world resp_rest)
         (trace (snd (start (partial_world resp_rest) hello_task)))
   \<and> \<not> list_ex is_field_write (after_close (trace (snd (start (partial_world resp_rest) hello_task))))"
proof -
  have o: "completionChan hello_task = Open" and z: "bytesRead hello_task = 0"
    by (simp_all add: hello_task_simps)
  have s: "\<forall>name info. osStat (partial_world resp_rest) name = Inr info \<longrightarrow>
         0 \<le> Size info \<and> Size info < 2 ^ 62"
    by (simp add: partial_world_simps resp_simps)
  have b: "\<forall>k req r e. clientDo (partial_world resp_rest) k req = (Some r, e) \<longrightarrow>
         body_bytes (Body r) < 2 ^ 62"
    by (auto simp: partial_world_clientDo resp_simps)
  have v: "bytesRead_values (trace (snd (start (partial_world resp_rest) hello_task))) = [100, 110]"
    by (simp add: run_defs hello_task_simps partial_world_simps resp_simps hello_names wrap64_def)
  from bytesRead_monotonic [OF o z s b] o z v show ?thesis
    by (simp add: partial_world_simps resp_simps)
qed

text \<open>
  The reasons of an assignment are not met by an increment after a write that failed
  or was short, nor by a seed that is not the size of the file; they are met by the
  assignments of the run above.
\<close>

lemma failed_write_not_justified:
  "\<not> assignments_justified disk_full_world [EvWrite ''hello'', EvSetBytesRead 5]"
  by (simp add: assignments_justified_def reason_before_def disk_full_world_def quiet_world_def)

lemma short_write_not_justified:
  "\<not> assignments_justified (quiet_world\<lparr>fileWrite := (\<lambda>k buf. WriteReturns 3 None)\<rparr>)
       [EvWrite ''hello'', EvSetBytesRead 5]"
  by (simp add: assignments_justified_def reason_before_def quiet_world_def)

lemma foreign_seed_not_justified:
  "\<not> assignments_justified (partial_world resp_rest)
       [EvOpenFile ''hello.txt'', EvSeekEnd, EvSetBytesRead 7]"
  by (simp add: assignments_justified_def reason_before_def seeded_from_def partial_world_def
        quiet_world_def partial_file_def)

lemma seed_and_increment_justified:
  "assignments_justified (partial_world resp_rest)
     [EvOpenFile ''hello.txt'', EvSeekEnd, EvSetBytesRead 100, EvRead,
      EvWrite ''0123456789'', EvSetBytesRead 110]"
  by (simp add: assignments_justified_def reason_before_def seeded_from_def partial_world_def
        quiet_world_def partial_file_def)

end
